theory Spec2Isabelle
  imports Main "HOL-Library.AList" "HOL-Library.Char_ord" "HOL-Library.List_Lexorder" "HOL-Library.Product_Lexorder"
begin

section \<open>Entropy client: repository and package-state orchestration\<close>

text \<open>
  A shallow embedding of \<^verbatim>\<open>libraries/entropy/client/interfaces/methods.py\<close>
  (classes \<^verbatim>\<open>RepositoryMixin\<close>, \<^verbatim>\<open>MiscMixin\<close> and \<^verbatim>\<open>MatchMixin\<close>).
  Python strings are \<^typ>\<open>string\<close>, Python integers are \<^typ>\<open>int\<close> (or \<^typ>\<open>nat\<close>
  where the source only counts), exceptions are values of the datatype \<open>exc\<close>, and the
  mutable attributes of the client object are fields of records that every operation
  takes and returns. The translation function \<^verbatim>\<open>_\<close> and the colour wrappers
  (\<^verbatim>\<open>darkred\<close>, \<^verbatim>\<open>blue\<close>, ...) are taken as the identity on strings.
\<close>

subsection \<open>Exceptions and messages\<close>

datatype exc =
    RepositoryError string
  | OperationalError
  | DatabaseError
  | SystemDatabaseError
  | AttributeError
  | TypeError
  | KeyError
  | UnboundLocalError
  | IOError
  | OSError

text \<open>One call of \<^verbatim>\<open>self.output(text, importance, type, header, back)\<close>.\<close>

record out_msg =
  msg_text :: string
  importance :: nat
  mtype :: string
  header :: string
  msg_back :: bool

definition mk_output :: "string \<Rightarrow> nat \<Rightarrow> string \<Rightarrow> string \<Rightarrow> bool \<Rightarrow> out_msg" where
  "mk_output t i ty h b = \<lparr>msg_text = t, importance = i, mtype = ty, header = h, msg_back = b\<rparr>"

subsection \<open>Strings of the Python standard library\<close>

text \<open>\<^verbatim>\<open>s.startswith(p)\<close>, \<^verbatim>\<open>s.endswith(p)\<close> and \<^verbatim>\<open>s.find(p) != -1\<close>.\<close>

definition startswith :: "string \<Rightarrow> string \<Rightarrow> bool" where
  "startswith s p = (take (length p) s = p)"

definition endswith :: "string \<Rightarrow> string \<Rightarrow> bool" where
  "endswith s p = (length p \<le> length s \<and> drop (length s - length p) s = p)"

fun contains :: "string \<Rightarrow> string \<Rightarrow> bool" where
  "contains [] p = (p = [])"
| "contains (c # s) p = (startswith (c # s) p \<or> contains s p)"

text \<open>\<^verbatim>\<open>"%s" % n\<close> for a non-negative integer: its decimal digits.\<close>

fun str_nat :: "nat \<Rightarrow> string" where
  "str_nat n = (if n < 10 then [''0123456789'' ! n]
                else str_nat (n div 10) @ [''0123456789'' ! (n mod 10)])"

declare str_nat.simps [simp del]

text \<open>
  \<^verbatim>\<open>os.path.dirname\<close>, \<^verbatim>\<open>os.path.basename\<close> and the two-argument
  \<^verbatim>\<open>os.path.join\<close> of \<^verbatim>\<open>posixpath\<close>: the head is everything up to and
  including the last slash, stripped of trailing slashes unless it consists of slashes only.
\<close>

definition path_head :: "string \<Rightarrow> string" where
  "path_head p = rev (dropWhile (\<lambda>c. c \<noteq> CHR ''/'') (rev p))"

definition basename :: "string \<Rightarrow> string" where
  "basename p = rev (takeWhile (\<lambda>c. c \<noteq> CHR ''/'') (rev p))"

definition dirname :: "string \<Rightarrow> string" where
  "dirname p =
     (let head = path_head p
      in if head \<noteq> [] \<and> head \<noteq> replicate (length head) (CHR ''/'')
         then rev (dropWhile (\<lambda>c. c = CHR ''/'') (rev head))
         else head)"

definition path_join :: "string \<Rightarrow> string \<Rightarrow> string" where
  "path_join a b =
     (if startswith b ''/'' then b
      else if a = [] \<or> endswith a ''/'' then a @ b
      else a @ ''/'' @ b)"

subsection \<open>Database backup and restore\<close>

text \<open>
  What \<^verbatim>\<open>backup_database\<close> and \<^verbatim>\<open>restore_database\<close> ask of the operating system
  and of \<^verbatim>\<open>entropy.tools\<close>: permission and file tests, the free-space check, whether
  the (de)compression raises, and the clock read by \<^verbatim>\<open>get_ts\<close>.
\<close>

record timestamp =
  year :: nat
  month :: nat
  day :: nat
  hour :: nat
  minute :: nat
  second :: nat

record os_env =
  access_W :: "string \<Rightarrow> bool"
  access_R :: "string \<Rightarrow> bool"
  isdir :: "string \<Rightarrow> bool"
  isfile :: "string \<Rightarrow> bool"
  check_required_space :: "string \<Rightarrow> nat \<Rightarrow> bool"
  compress_file_raises :: "string \<Rightarrow> string \<Rightarrow> int \<Rightarrow> bool"
  uncompress_file_raises :: "string \<Rightarrow> string \<Rightarrow> bool"
  now :: timestamp

text \<open>
  The effects of a call: the messages printed, the calls of
  \<^verbatim>\<open>entropy.tools.compress_file(src, dst, bz2.BZ2File, level)\<close> and
  \<^verbatim>\<open>entropy.tools.uncompress_file(src, dst, bz2.BZ2File)\<close>, the number of tracebacks
  printed and whether \<^verbatim>\<open>self.clear_cache()\<close> was called.
\<close>

record io_log =
  printed :: "out_msg list"
  compress_calls :: "(string \<times> string \<times> int) list"
  uncompress_calls :: "(string \<times> string) list"
  tracebacks :: nat
  cache_cleared :: bool

definition no_io :: io_log where
  "no_io = \<lparr>printed = [], compress_calls = [], uncompress_calls = [], tracebacks = 0,
            cache_cleared = False\<rparr>"

definition get_ts :: "timestamp \<Rightarrow> string" where
  "get_ts ts = str_nat (year ts) @ str_nat (month ts) @ str_nat (day ts) @ ''_''
     @ str_nat (hour ts) @ ''h'' @ str_nat (minute ts) @ ''m'' @ str_nat (second ts) @ ''s''"

text \<open>
  \<^verbatim>\<open>backup_database(dbpath, backup_dir, silent, compress_level)\<close>. The parameter
  \<open>dbbackupprefix\<close> is \<^verbatim>\<open>etpConst['dbbackupprefix']\<close>. In the failing branch the
  local \<^verbatim>\<open>mytxt\<close> is bound only under \<^verbatim>\<open>if not silent\<close>, so the
  \<^verbatim>\<open>return False, mytxt\<close> that follows raises \<^verbatim>\<open>UnboundLocalError\<close> when
  \<^verbatim>\<open>silent\<close> is true.
\<close>

definition backup_database ::
  "string \<Rightarrow> os_env \<Rightarrow> string \<Rightarrow> string option \<Rightarrow> bool \<Rightarrow> int \<Rightarrow> (exc + bool \<times> string) \<times> io_log" where
  "backup_database dbbackupprefix env dbpath backup_dir_arg silent compress_level_arg =
     (let compress_level = (if compress_level_arg \<notin> set [1..9] then 9 else compress_level_arg);
          backup_dir0 = dirname dbpath;
          backup_dir = (if backup_dir0 = [] then dirname dbpath else backup_dir0);
          dbname = basename dbpath;
          bytes_required = 1024000 * 300
      in if \<not> (access_W env backup_dir \<and> isdir env backup_dir \<and> isfile env dbpath \<and>
                access_R env dbpath \<and> check_required_space env backup_dir bytes_required)
         then (if \<not> silent
               then (let mytxt = ''Cannot backup selected database'' @ '': '' @ dbpath @ '', ''
                                 @ ''permission denied''
                     in (Inr (False, mytxt),
                         no_io\<lparr>printed := [mk_output mytxt 1 ''error'' '' @@ '' False]\<rparr>))
               else (Inl UnboundLocalError, no_io))
         else
           (let comp_dbname = dbbackupprefix @ dbname @ ''.'' @ get_ts (now env) @ ''.bz2'';
                comp_dbpath = path_join backup_dir comp_dbname;
                io1 = (if \<not> silent
                       then no_io\<lparr>printed := [mk_output (''Backing up database to'' @ '': ''
                                     @ basename comp_dbpath @ '' ...'') 1 ''info'' '' @@ '' True]\<rparr>
                       else no_io);
                io2 = io1\<lparr>compress_calls := [(dbpath, comp_dbpath, compress_level)]\<rparr>
            in if compress_file_raises env dbpath comp_dbpath compress_level
               then (Inr (False, ''Unable to compress''),
                     (if \<not> silent then io2\<lparr>tracebacks := 1\<rparr> else io2))
               else (Inr (True, ''All fine''),
                     (if \<not> silent
                      then io2\<lparr>printed := printed io2 @
                             [mk_output (''Database backed up successfully'' @ '': ''
                                @ basename comp_dbpath) 1 ''info'' '' @@ '' False]\<rparr>
                      else io2))))"

text \<open>\<^verbatim>\<open>restore_database(backup_path, db_destination, silent)\<close>, with the same slip.\<close>

definition restore_database ::
  "os_env \<Rightarrow> string \<Rightarrow> string \<Rightarrow> bool \<Rightarrow> (exc + bool \<times> string) \<times> io_log" where
  "restore_database env backup_path db_destination silent =
     (let bytes_required = 1024000 * 200;
          db_dir = dirname db_destination
      in if \<not> (access_W env db_dir \<and> isdir env db_dir \<and> isfile env backup_path \<and>
                access_R env backup_path \<and> check_required_space env db_dir bytes_required)
         then (if \<not> silent
               then (let mytxt = ''Cannot restore selected backup'' @ '': '' @ basename backup_path
                                 @ '', '' @ ''permission denied''
                     in (Inr (False, mytxt),
                         no_io\<lparr>printed := [mk_output mytxt 1 ''error'' '' @@ '' False]\<rparr>))
               else (Inl UnboundLocalError, no_io))
         else
           (let io1 = (if \<not> silent
                       then no_io\<lparr>printed := [mk_output (''Restoring backed up database'' @ '': ''
                                     @ basename backup_path @ '' => '' @ db_destination @ '' ...'')
                                     1 ''info'' '' @@ '' True]\<rparr>
                       else no_io);
                io2 = io1\<lparr>uncompress_calls := [(backup_path, db_destination)]\<rparr>
            in if uncompress_file_raises env backup_path db_destination
               then (Inr (False, ''Unable to unpack''),
                     (if \<not> silent then io2\<lparr>tracebacks := 1\<rparr> else io2))
               else (Inr (True, ''All fine''),
                     (if \<not> silent
                      then io2\<lparr>printed := printed io2 @
                             [mk_output (''Database restored successfully'' @ '': ''
                                @ basename backup_path) 1 ''info'' '' @@ '' False]\<rparr>
                      else io2)\<lparr>cache_cleared := True\<rparr>)))"

text \<open>Two environments for concrete runs: one that grants everything, one whose
  directories are not writable.\<close>

definition ok_env :: os_env where
  "ok_env = \<lparr>access_W = (\<lambda>_. True), access_R = (\<lambda>_. True), isdir = (\<lambda>_. True),
     isfile = (\<lambda>_. True), check_required_space = (\<lambda>_ _. True),
     compress_file_raises = (\<lambda>_ _ _. False), uncompress_file_raises = (\<lambda>_ _. False),
     now = \<lparr>year = 2010, month = 1, day = 15, hour = 10, minute = 30, second = 0\<rparr>\<rparr>"

definition readonly_env :: os_env where
  "readonly_env = ok_env\<lparr>access_W := (\<lambda>_. False)\<rparr>"

subsection \<open>Resource lock manager\<close>

text \<open>
  The class attributes \<^verbatim>\<open>MiscMixin.RESOURCES_LOCK_F_REF\<close> (the open PID file object,
  here the path it was opened on) and \<^verbatim>\<open>MiscMixin.RESOURCES_LOCK_F_COUNT\<close>, together
  with what the lock functions touch outside the process: the directories and files that
  exist (a file with its content) and the paths on which this process holds the
  \<^verbatim>\<open>flock\<close>.
\<close>

record lock_state =
  RESOURCES_LOCK_F_REF :: "string option"
  RESOURCES_LOCK_F_COUNT :: int
  dirs :: "string \<Rightarrow> bool"
  files :: "string \<Rightarrow> string option"
  flocked :: "string \<Rightarrow> bool"

text \<open>
  What one call of \<^verbatim>\<open>create_pid_file_lock\<close> meets: whether \<^verbatim>\<open>os.makedirs\<close> and
  \<^verbatim>\<open>open(pidfile, "w")\<close> succeed, and the outcome of
  \<^verbatim>\<open>fcntl.flock(fd, LOCK_EX | LOCK_NB)\<close>: granted, refused with \<^verbatim>\<open>EACCES\<close> or
  \<^verbatim>\<open>EAGAIN\<close>, or failing with another error number.
\<close>

datatype flock_outcome = Granted | WouldBlock | FlockFailure

record lock_env =
  makedirs_ok :: bool
  open_ok :: bool
  flock_result :: flock_outcome

definition create_pid_file_lock ::
  "lock_env \<Rightarrow> nat \<Rightarrow> string \<Rightarrow> lock_state \<Rightarrow> (exc + bool) \<times> lock_state" where
  "create_pid_file_lock env mypid pidfile s =
     (if RESOURCES_LOCK_F_REF s \<noteq> None then (Inr True, s)
      else
        let lockdir = dirname pidfile
        in if \<not> dirs s lockdir \<and> \<not> makedirs_ok env then (Inl OSError, s)
           else
             let s1 = s\<lparr>dirs := (dirs s)(lockdir := True)\<rparr>
             in if \<not> open_ok env then (Inl IOError, s1)
                else
                  let s2 = s1\<lparr>files := (files s1)(pidfile \<mapsto> [])\<rparr>
                  in case flock_result env of
                       FlockFailure \<Rightarrow> (Inl IOError, s2)
                     | WouldBlock \<Rightarrow> (Inr False, s2)
                     | Granted \<Rightarrow>
                         (Inr True,
                          s2\<lparr>flocked := (flocked s2)(pidfile := True),
                             files := (files s2)(pidfile \<mapsto> str_nat mypid),
                             RESOURCES_LOCK_F_REF := Some pidfile\<rparr>))"

text \<open>
  \<^verbatim>\<open>resources_create_lock\<close> and \<^verbatim>\<open>resources_remove_lock\<close>; \<open>using_resources\<close> is
  \<^verbatim>\<open>etpConst['locks']['using_resources']\<close>.
\<close>

definition resources_create_lock ::
  "string \<Rightarrow> lock_env \<Rightarrow> nat \<Rightarrow> lock_state \<Rightarrow> (exc + bool) \<times> lock_state" where
  "resources_create_lock using_resources env mypid s =
     (case create_pid_file_lock env mypid using_resources s of
        (Inl e, s') \<Rightarrow> (Inl e, s')
      | (Inr acquired, s') \<Rightarrow>
          (Inr acquired,
           if acquired then s'\<lparr>RESOURCES_LOCK_F_COUNT := RESOURCES_LOCK_F_COUNT s' + 1\<rparr> else s'))"

definition resources_remove_lock :: "string \<Rightarrow> lock_state \<Rightarrow> lock_state" where
  "resources_remove_lock using_resources s =
     (let s1 = (if RESOURCES_LOCK_F_COUNT s > 0
                then s\<lparr>RESOURCES_LOCK_F_COUNT := RESOURCES_LOCK_F_COUNT s - 1\<rparr> else s)
      in if RESOURCES_LOCK_F_COUNT s1 > 0 then s1
         else
           let s2 = (case RESOURCES_LOCK_F_REF s1 of
                       None \<Rightarrow> s1
                     | Some f \<Rightarrow> s1\<lparr>flocked := (flocked s1)(f := False),
                                     RESOURCES_LOCK_F_REF := None\<rparr>)
           in if files s2 using_resources \<noteq> None
              then s2\<lparr>files := (files s2)(using_resources := None)\<rparr>
              else s2)"

text \<open>
  A sequence of calls of \<^verbatim>\<open>resources_create_lock\<close>, one environment for each, all of
  which return \<^verbatim>\<open>True\<close> (\<open>None\<close> when one of them returns \<^verbatim>\<open>False\<close> or raises);
  and \<open>n\<close> calls of \<^verbatim>\<open>resources_remove_lock\<close>.
\<close>

fun create_locks :: "string \<Rightarrow> nat \<Rightarrow> lock_env list \<Rightarrow> lock_state \<Rightarrow> lock_state option" where
  "create_locks p mypid [] s = Some s"
| "create_locks p mypid (env # envs) s =
     (case resources_create_lock p env mypid s of
        (Inr True, s') \<Rightarrow> create_locks p mypid envs s'
      | _ \<Rightarrow> None)"

fun remove_locks :: "string \<Rightarrow> nat \<Rightarrow> lock_state \<Rightarrow> lock_state" where
  "remove_locks p 0 s = s"
| "remove_locks p (Suc n) s = remove_locks p n (resources_remove_lock p s)"

text \<open>A fresh process: no lock file object, counter 0, an empty lock directory.\<close>

definition fresh_lock_state :: lock_state where
  "fresh_lock_state = \<lparr>RESOURCES_LOCK_F_REF = None, RESOURCES_LOCK_F_COUNT = 0,
     dirs = (\<lambda>d. d = ''/var/run/entropy''), files = (\<lambda>_. None), flocked = (\<lambda>_. False)\<rparr>"

definition granting_env :: lock_env where
  "granting_env = \<lparr>makedirs_ok = True, open_ok = True, flock_result = Granted\<rparr>"

definition contended_env :: lock_env where
  "contended_env = \<lparr>makedirs_ok = True, open_ok = True, flock_result = WouldBlock\<rparr>"

text \<open>
  The lock is held by this process with counter \<open>k\<close> (file reference set, OS-level lock
  held, PID file holding the process id), or released (counter 0, file reference cleared,
  no OS-level lock, no PID file).
\<close>

definition lock_held :: "string \<Rightarrow> nat \<Rightarrow> int \<Rightarrow> lock_state \<Rightarrow> bool" where
  "lock_held p mypid k s \<longleftrightarrow>
     RESOURCES_LOCK_F_COUNT s = k \<and> RESOURCES_LOCK_F_REF s = Some p \<and>
     flocked s p \<and> files s p = Some (str_nat mypid)"

definition lock_released :: "string \<Rightarrow> lock_state \<Rightarrow> bool" where
  "lock_released p s \<longleftrightarrow>
     RESOURCES_LOCK_F_COUNT s = 0 \<and> RESOURCES_LOCK_F_REF s = None \<and>
     \<not> flocked s p \<and> files s p = None"


subsection \<open>Repository configuration file\<close>

text \<open>
  \<^verbatim>\<open>s.strip()\<close> (the whitespace of a byte string: space, tab, line feed, vertical tab,
  form feed, carriage return), \<^verbatim>\<open>s.split("|")\<close> and \<^verbatim>\<open>sep.join(xs)\<close>.
\<close>

definition is_space :: "char \<Rightarrow> bool" where
  "is_space c = (c \<in> set [CHR '' '', CHR 0x09, CHR 0x0A, CHR 0x0B, CHR 0x0C, CHR 0x0D])"

definition strip :: "string \<Rightarrow> string" where
  "strip s = rev (dropWhile is_space (rev (dropWhile is_space s)))"

fun split_on :: "char \<Rightarrow> string \<Rightarrow> string list" where
  "split_on d [] = [[]]"
| "split_on d (c # s) =
     (if c = d then [] # split_on d s
      else (case split_on d s of [] \<Rightarrow> [[c]] | f # fs \<Rightarrow> (c # f) # fs))"

fun join_with :: "string \<Rightarrow> string list \<Rightarrow> string" where
  "join_with sep [] = []"
| "join_with sep [x] = x"
| "join_with sep (x # y # ys) = x @ sep @ join_with sep (y # ys)"

text \<open>The \<^verbatim>\<open>repodata\<close> dictionary passed to \<^verbatim>\<open>__save_repository_settings\<close>.\<close>

record repodata =
  repoid :: string
  description :: string
  plain_packages :: "string list"
  plain_database :: string
  dbcformat :: string
  service_port :: string
  ssl_service_port :: string

text \<open>
  A line that \<^verbatim>\<open>__save_repository_settings\<close> takes out of the content as a repository
  line (it starts with \<^verbatim>\<open>repository|\<close>, or is a comment with one \<^verbatim>\<open>#\<close> that contains
  \<^verbatim>\<open>repository|\<close>), and a comment with one \<^verbatim>\<open>#\<close> that contains a given text.
\<close>

definition single_comment_with :: "string \<Rightarrow> string \<Rightarrow> bool" where
  "single_comment_with t x = (startswith x ''#'' \<and> \<not> startswith x ''##'' \<and> contains x t)"

definition repo_line_like :: "string \<Rightarrow> bool" where
  "repo_line_like x = (startswith x ''repository|'' \<or> single_comment_with ''repository|'' x)"

definition five_fields :: "string \<Rightarrow> bool" where
  "five_fields x = (length (split_on (CHR ''|'') x) = 5)"

text \<open>
  The loop that fills \<^verbatim>\<open>repolines_data\<close>: the entry of key \<open>repocount\<close> holds the
  repository id (the second field) and the line, commented out when disabling and
  uncommented when enabling the repository of \<^verbatim>\<open>repodata\<close>.
\<close>

fun repolines_data_of ::
  "string \<Rightarrow> bool \<Rightarrow> bool \<Rightarrow> nat \<Rightarrow> string list \<Rightarrow> (nat \<times> string \<times> string) list" where
  "repolines_data_of rid disable enable repocount [] = []"
| "repolines_data_of rid disable enable repocount (x # xs) =
     (let xid = split_on (CHR ''|'') x ! 1;
          line = (if disable \<and> xid = rid then (if \<not> startswith x ''#'' then ''#'' @ x else x)
                  else if enable \<and> xid = rid \<and> startswith x ''#'' then drop 1 x
                  else x)
      in (repocount, xid, line) # repolines_data_of rid disable enable (Suc repocount) xs)"

text \<open>The line written for an added repository.\<close>

definition repository_line :: "repodata \<Rightarrow> string" where
  "repository_line rd = ''repository|'' @ repoid rd @ ''|'' @ description rd @ ''|''
     @ join_with '' '' (plain_packages rd) @ ''|''
     @ plain_database rd @ ''#'' @ dbcformat rd @ ''#''
     @ service_port rd @ '','' @ ssl_service_port rd"

text \<open>
  The content that \<^verbatim>\<open>__save_repository_settings\<close> writes, from the lines read, in
  three steps: the entries of the repository are removed (when adding or removing); the
  dictionary \<^verbatim>\<open>repolines_data\<close> is filled and, when adding, loses the disabled entries
  of the repository and gains its new line; the lines left and the lines of
  \<^verbatim>\<open>repolines_data\<close> are put together. The dictionary is a list of entries in ascending
  key order, which is the order \<^verbatim>\<open>sorted(repolines_data.keys())\<close> reads them in.
\<close>

definition removed_entries :: "repodata \<Rightarrow> bool \<Rightarrow> bool \<Rightarrow> bool \<Rightarrow> string list \<Rightarrow> string list" where
  "removed_entries rd remove disable enable content =
     (if \<not> disable \<and> \<not> enable
      then (let c = filter (\<lambda>x. \<not> startswith x (''repository|'' @ repoid rd)) content
            in if remove
               then filter (\<lambda>x. \<not> single_comment_with (''repository|'' @ repoid rd) x) c
               else c)
      else content)"

definition new_repolines_data ::
  "repodata \<Rightarrow> bool \<Rightarrow> bool \<Rightarrow> string list \<Rightarrow> (nat \<times> string \<times> string) list" where
  "new_repolines_data rd disable enable repolines =
     (let repolines_data = repolines_data_of (repoid rd) disable enable 0 repolines;
          repocount = length repolines
      in if \<not> disable \<and> \<not> enable
         then filter (\<lambda>(cc, xid, cc_line).
                 \<not> (startswith cc_line ''#'' \<and>
                    contains cc_line (''repository|'' @ repoid rd))) repolines_data
              @ [(repocount, repoid rd, repository_line rd)]
         else repolines_data)"

definition save_repository_settings_content ::
  "repodata \<Rightarrow> bool \<Rightarrow> bool \<Rightarrow> bool \<Rightarrow> string list \<Rightarrow> string list" where
  "save_repository_settings_content rd remove disable enable lines =
     (let content = removed_entries rd remove disable enable (map strip lines)
      in if \<not> remove
         then
           (let repolines0 = filter repo_line_like content;
                content2 = filter (\<lambda>x. x \<notin> set repolines0) content;
                repolines = filter five_fields repolines0
            in content2 @ map (\<lambda>(cc, xid, line). line)
                            (new_repolines_data rd disable enable repolines))
         else content)"

text \<open>
  \<^verbatim>\<open>__save_repository_settings\<close> on the file system: \<open>conf\<close> is the content of
  \<^verbatim>\<open>etpConst['repositoriesconf']\<close> as \<^verbatim>\<open>readlines()\<close> returns it (\<open>None\<close> when the
  file does not exist), \<open>writable\<close> tells whether writing the temporary file and renaming
  it succeed. The result is the returned value (\<^verbatim>\<open>None\<close> for a package-file repository,
  which is never saved) and the new content of the file.
\<close>

definition save_repository_settings ::
  "string \<Rightarrow> bool \<Rightarrow> repodata \<Rightarrow> bool \<Rightarrow> bool \<Rightarrow> bool \<Rightarrow> string list option
     \<Rightarrow> bool option \<times> string list option" where
  "save_repository_settings packagesext writable rd remove disable enable conf =
     (if endswith (repoid rd) packagesext then (None, conf)
      else
        let lines = (case conf of None \<Rightarrow> [] | Some ls \<Rightarrow> ls);
            content = save_repository_settings_content rd remove disable enable lines
        in if writable then (Some True, Some (map (\<lambda>line. line @ [CHR 0x0A]) content))
           else (Some False, conf))"

text \<open>\<^verbatim>\<open>__write_ordered_repositories_entries\<close>; a failing write raises.\<close>

definition write_ordered_repositories_entries_content :: "string list \<Rightarrow> string list \<Rightarrow> string list" where
  "write_ordered_repositories_entries_content ordered_repository_list lines =
     (let content0 = map strip lines;
          repolines = filter (\<lambda>x. startswith x ''repository|'' \<and> five_fields x) content0;
          content = filter (\<lambda>x. x \<notin> set repolines) content0
      in content @ concat (map (\<lambda>rid. filter (\<lambda>x. rid = split_on (CHR ''|'') x ! 1) repolines)
                             ordered_repository_list))"

definition write_ordered_repositories_entries ::
  "bool \<Rightarrow> string list \<Rightarrow> string list option \<Rightarrow> exc option \<times> string list option" where
  "write_ordered_repositories_entries writable ordered_repository_list conf =
     (let lines = (case conf of None \<Rightarrow> [] | Some ls \<Rightarrow> ls);
          content = write_ordered_repositories_entries_content ordered_repository_list lines
      in if writable then (None, Some (map (\<lambda>line. line @ [CHR 0x0A]) content))
         else (Some IOError, conf))"


definition main_repodata :: repodata where
  "main_repodata = \<lparr>repoid = ''main'', description = ''Main repository'',
     plain_packages = [''http://a'', ''http://b''], plain_database = ''http://a/db'',
     dbcformat = ''zip'', service_port = ''80'', ssl_service_port = ''443''\<rparr>"

definition sample_conf :: "string list" where
  "sample_conf = [''# repositories'', ''repository|broken'', ''#repository|main|Main|http://a|http://a/db#zip#80,443'',
     ''repository|extra|Extra|http://c|http://c/db#zip#80,443'', ''  branch|5  '']"

subsection \<open>The client object\<close>

text \<open>
  An open \<^verbatim>\<open>EntropyRepository\<close> object is known by the database file and the name it was
  opened with. The constants of \<^verbatim>\<open>etpConst\<close> and the paths of the mask files given by
  \<^verbatim>\<open>SystemSettings.get_setting_files_data()\<close> are parameters.
\<close>

datatype handle = EntropyRepository (dbFile: string) (dbname: string)

record etp_const =
  systemroot :: string
  clientdbid :: string
  packagesext :: string
  etpdatabasefile :: string
  dbnamerepoprefix :: string
  entropyslotprefix :: string
  repositoriesconf :: string
  mask_file :: string
  unmask_file :: string

text \<open>
  \<^verbatim>\<open>SystemSettings['repositories']\<close> (the keys \<^verbatim>\<open>available\<close>, \<^verbatim>\<open>excluded\<close>,
  \<^verbatim>\<open>order\<close>, \<^verbatim>\<open>branch\<close>; of the data of a repository the keys the functions below read)
  and \<^verbatim>\<open>SystemSettings['live_packagemasking']\<close>. Dictionaries are association lists
  read with \<^const>\<open>map_of\<close> and written with \<^const>\<open>AList.update\<close> and
  \<^const>\<open>AList.delete\<close>.
\<close>

record repo_meta =
  dbpath :: string
  temporary :: bool
  post_branch_hop_script :: string
  post_branch_upgrade_script :: string

record system_settings =
  available :: "(string \<times> repo_meta) list"
  excluded :: "(string \<times> repo_meta) list"
  order :: "string list"
  branch :: string
  mask_matches :: "(int \<times> string) set"
  unmask_matches :: "(int \<times> string) set"

text \<open>
  The attributes of the client: the cache of open repositories and the in-memory
  repositories (both keyed by repository id and system root), the set of ids already
  warned about, the enabled repositories, the hook switch, the installed-packages
  repository, the settings; the text files it reads and writes (a path to the lines that
  \<^verbatim>\<open>readlines()\<close> returns); the branch migration table of the installed-packages
  database; and, as a record of its effects, the messages printed, the lines written to
  \<^verbatim>\<open>stderr\<close>, the handles \<^verbatim>\<open>closeDB()\<close> was called on and the argument lists of the
  scripts run.
\<close>

record client =
  repodb_cache :: "((string \<times> string) \<times> handle) list"
  memory_db_instances :: "((string \<times> string) \<times> handle) list"
  repo_error_messages_cache :: "string set"
  enabled_repos :: "string list"
  can_run_sys_set_hooks :: bool
  installed_repository :: "handle option"
  SystemSettings :: system_settings
  fs :: "string \<Rightarrow> string list option"
  branch_migration :: "((string \<times> string \<times> string) \<times> string \<times> string) list"
  outputs :: "out_msg list"
  stderr :: "string list"
  closeDB_calls :: "handle list"
  script_runs :: "string list list"

text \<open>
  The collaborators the client calls: the file system and the operating system, the
  methods of a repository handle, the settings loader (\<^verbatim>\<open>SystemSettings.clear()\<close> parses
  the settings anew) and \<^verbatim>\<open>entropy.tools\<close>. A method that may raise returns the
  exception, if any.
\<close>

record client_env =
  db_isfile :: "string \<Rightarrow> bool"
  closeDB_error :: "handle \<Rightarrow> string option"
  listConfigProtectEntries :: "handle \<Rightarrow> exc option"
  validateDatabase :: "handle \<Rightarrow> exc option"
  settings_clear :: "client \<Rightarrow> system_settings"
  conf_writable :: bool
  retrieveKeySlot :: "handle \<Rightarrow> int \<Rightarrow> string \<times> string"
  searchKeySlot :: "handle \<Rightarrow> string \<Rightarrow> string \<Rightarrow> int list"
  getVersioningData :: "handle \<Rightarrow> int \<Rightarrow> string \<times> string \<times> int"
  retrieveDigest :: "handle \<Rightarrow> int \<Rightarrow> string"
  entropy_compare_versions :: "string \<times> string \<times> int \<Rightarrow> string \<times> string \<times> int \<Rightarrow> int"
  idpackageValidator :: "client \<Rightarrow> handle \<Rightarrow> int \<Rightarrow> bool \<Rightarrow> int \<times> int"
  retrieveAtom :: "handle \<Rightarrow> int \<Rightarrow> string"
  atom_match :: "client \<Rightarrow> string \<Rightarrow> int \<times> string"
  path_writable :: "string \<Rightarrow> bool"
  script_readable :: "string \<Rightarrow> bool"
  md5sum :: "string \<Rightarrow> string"
  script_exit :: "string list \<Rightarrow> int"

text \<open>The keys of a dictionary, each once.\<close>

definition dict_keys :: "('k \<times> 'v) list \<Rightarrow> 'k list" where
  "dict_keys d = remdups (map fst d)"

definition emit :: "out_msg \<Rightarrow> client \<Rightarrow> client" where
  "emit m s = s\<lparr>outputs := outputs s @ [m]\<rparr>"

text \<open>
  \<^verbatim>\<open>load_repository_database\<close>. An unknown id and a database file that is missing raise
  \<^verbatim>\<open>RepositoryError\<close>, after a warning that is printed once for an id as long as the id
  stays in \<^verbatim>\<open>_repo_error_messages_cache\<close>. A temporary repository gives the in-memory
  instance, \<^verbatim>\<open>None\<close> if there is none. The synchronisation with the source package
  manager that follows for root changes only caches not kept here.
\<close>

definition msg_bad_id :: "string \<Rightarrow> string" where
  "msg_bad_id rid = ''bad repository id specified'' @ '': '' @ rid"

definition msg_not_downloaded :: "string \<Rightarrow> string" where
  "msg_not_downloaded rid = ''Repository '' @ rid @ '' hasn't been downloaded yet.''"

definition warn_once :: "string \<Rightarrow> string \<Rightarrow> client \<Rightarrow> client" where
  "warn_once rid t s =
     (if rid \<notin> repo_error_messages_cache s
      then (emit (mk_output t 2 ''warning'' [] False) s)
             \<lparr>repo_error_messages_cache := insert rid (repo_error_messages_cache s)\<rparr>
      else s)"

definition load_repository_database ::
  "client_env \<Rightarrow> etp_const \<Rightarrow> string \<Rightarrow> client \<Rightarrow> (exc + handle option) \<times> client" where
  "load_repository_database env c rid s =
     (case map_of (available (SystemSettings s)) rid of
        None \<Rightarrow>
          (let t = msg_bad_id rid
           in (Inl (RepositoryError (''RepositoryError: '' @ t)), warn_once rid t s))
      | Some meta \<Rightarrow>
          if temporary meta
          then (Inr (map_of (memory_db_instances s) (rid, systemroot c)), s)
          else
            (let dbfile = path_join (dbpath meta) (etpdatabasefile c)
             in if \<not> db_isfile env dbfile
                then (let t = msg_not_downloaded rid
                      in (Inl (RepositoryError (''RepositoryError: '' @ t)), warn_once rid t s))
                else (Inr (Some (EntropyRepository dbfile (dbnamerepoprefix c @ rid))), s)))"

text \<open>
  \<^verbatim>\<open>open_repository\<close>. The id of the installed-packages repository gives that
  repository (which may be \<^verbatim>\<open>None\<close>). Otherwise the cached handle, or a handle loaded and
  then cached; \<^verbatim>\<open>checkDatabaseApi()\<close> on \<^verbatim>\<open>None\<close> raises \<^verbatim>\<open>AttributeError\<close>, and what
  it raises on a handle is caught.
\<close>

definition open_repository ::
  "client_env \<Rightarrow> etp_const \<Rightarrow> string \<Rightarrow> client \<Rightarrow> (exc + handle option) \<times> client" where
  "open_repository env c rid s =
     (if rid = clientdbid c then (Inr (installed_repository s), s)
      else
        let key = (rid, systemroot c)
        in case map_of (repodb_cache s) key of
             Some dbconn \<Rightarrow> (Inr (Some dbconn), s)
           | None \<Rightarrow>
               (case load_repository_database env c rid s of
                  (Inl e, s1) \<Rightarrow> (Inl e, s1)
                | (Inr None, s1) \<Rightarrow> (Inl AttributeError, s1)
                | (Inr (Some dbconn), s1) \<Rightarrow>
                    (Inr (Some dbconn),
                     s1\<lparr>repodb_cache := AList.update key dbconn (repodb_cache s1)\<rparr>)))"

text \<open>
  \<^verbatim>\<open>close_all_repositories\<close>: the loop over the sorted keys of the cache, which skips
  the keys of in-memory repositories, pops every other handle and calls \<^verbatim>\<open>closeDB()\<close> on
  it (an \<^verbatim>\<open>OperationalError\<close> is reported on \<^verbatim>\<open>stderr\<close>); then the cache is cleared and,
  with the hooks switched off, the settings are cleared if asked for. The keys the loop
  meets are keys of the cache, so the lookup in it does not fail.
\<close>

fun close_cached :: "client_env \<Rightarrow> (string \<times> string) list \<Rightarrow> client \<Rightarrow> client" where
  "close_cached env [] s = s"
| "close_cached env (item # items) s =
     (if map_of (memory_db_instances s) item \<noteq> None then close_cached env items s
      else
        case map_of (repodb_cache s) item of
          None \<Rightarrow> close_cached env items s
        | Some h \<Rightarrow>
            (let s1 = s\<lparr>repodb_cache := AList.delete item (repodb_cache s),
                        closeDB_calls := closeDB_calls s @ [h]\<rparr>;
                 s2 = (case closeDB_error env h of
                         None \<Rightarrow> s1
                       | Some err \<Rightarrow>
                           s1\<lparr>stderr := stderr s1 @
                                [''!!! Cannot close Entropy repos: '' @ err @ [CHR 0x0A]]\<rparr>)
             in close_cached env items s2))"

definition close_all_repositories :: "client_env \<Rightarrow> bool \<Rightarrow> client \<Rightarrow> client" where
  "close_all_repositories env mask_clear s =
     (let s1 = close_cached env (sort (dict_keys (repodb_cache s))) s;
          s2 = s1\<lparr>repodb_cache := []\<rparr>;
          old_value = can_run_sys_set_hooks s2;
          s3 = s2\<lparr>can_run_sys_set_hooks := False\<rparr>;
          s4 = (if mask_clear then s3\<lparr>SystemSettings := settings_clear env s3\<rparr> else s3)
      in s4\<lparr>can_run_sys_set_hooks := old_value\<rparr>)"

text \<open>
  \<^verbatim>\<open>validate_repositories\<close>. The body of the loop for one id: the two handlers print
  their diagnostics unless \<^verbatim>\<open>quiet\<close>; any other exception leaves the function.
  (\<^verbatim>\<open>MirrorStatus\<close> and the masking validation cache, cleared first, are not kept here.)
\<close>

definition msg_not_available :: "string \<Rightarrow> string" where
  "msg_not_available rid =
     ''Repository'' @ '' '' @ rid @ '' '' @ ''is not available'' @ ''. '' @ ''Cannot validate''"

definition msg_please_update :: string where
  "msg_please_update = ''Please update your repositories now in order to remove this message!''"

definition msg_corrupted :: "string \<Rightarrow> string" where
  "msg_corrupted rid =
     ''Repository'' @ '' '' @ rid @ '' '' @ ''is corrupted'' @ ''. '' @ ''Cannot validate''"

definition validate_except :: "bool \<Rightarrow> string \<Rightarrow> exc \<Rightarrow> client \<Rightarrow> exc option \<times> client" where
  "validate_except quiet rid e s =
     (case e of
        RepositoryError _ \<Rightarrow>
          (None, if quiet then s
                 else emit (mk_output msg_please_update 1 ''warning'' ''!!! '' False)
                        (emit (mk_output (msg_not_available rid) 1 ''warning'' [] False) s))
      | OperationalError \<Rightarrow>
          (None, if quiet then s
                 else emit (mk_output (msg_corrupted rid) 1 ''warning'' [] False) s)
      | DatabaseError \<Rightarrow>
          (None, if quiet then s
                 else emit (mk_output (msg_corrupted rid) 1 ''warning'' [] False) s)
      | SystemDatabaseError \<Rightarrow>
          (None, if quiet then s
                 else emit (mk_output (msg_corrupted rid) 1 ''warning'' [] False) s)
      | _ \<Rightarrow> (Some e, s))"

definition validate_one ::
  "client_env \<Rightarrow> etp_const \<Rightarrow> bool \<Rightarrow> string \<Rightarrow> client \<Rightarrow> exc option \<times> client" where
  "validate_one env c quiet rid s =
     (case open_repository env c rid s of
        (Inl e, s1) \<Rightarrow> validate_except quiet rid e s1
      | (Inr None, s1) \<Rightarrow> (Some AttributeError, s1)
      | (Inr (Some dbc), s1) \<Rightarrow>
          (case listConfigProtectEntries env dbc of
             Some e \<Rightarrow> validate_except quiet rid e s1
           | None \<Rightarrow>
               (case validateDatabase env dbc of
                  Some e \<Rightarrow> validate_except quiet rid e s1
                | None \<Rightarrow> (None, s1\<lparr>enabled_repos := enabled_repos s1 @ [rid]\<rparr>))))"

fun validate_loop ::
  "client_env \<Rightarrow> etp_const \<Rightarrow> bool \<Rightarrow> string list \<Rightarrow> client \<Rightarrow> exc option \<times> client" where
  "validate_loop env c quiet [] s = (None, s)"
| "validate_loop env c quiet (rid # rids) s =
     (case validate_one env c quiet rid s of
        (Some e, s1) \<Rightarrow> (Some e, s1)
      | (None, s1) \<Rightarrow> validate_loop env c quiet rids s1)"

definition validate_repositories ::
  "client_env \<Rightarrow> etp_const \<Rightarrow> bool \<Rightarrow> client \<Rightarrow> exc option \<times> client" where
  "validate_repositories env c quiet s =
     (let s0 = s\<lparr>repo_error_messages_cache := {}, enabled_repos := []\<rparr>
      in case validate_loop env c quiet (order (SystemSettings s0)) s0 of
           (Some e, s1) \<Rightarrow> (Some e, s1)
         | (None, s1) \<Rightarrow> (None, close_all_repositories env False s1))"

text \<open>
  \<^verbatim>\<open>remove_repository\<close>. The in-memory instance of the repository, if any, is popped
  and closed here; an \<^verbatim>\<open>OperationalError\<close> of that \<^verbatim>\<open>closeDB()\<close> is not caught.
\<close>

definition remove_repository ::
  "client_env \<Rightarrow> etp_const \<Rightarrow> string \<Rightarrow> bool \<Rightarrow> client \<Rightarrow> exc option \<times> client" where
  "remove_repository env c rid disable s =
     (let ss = SystemSettings s;
          in_available = (map_of (available ss) rid \<noteq> None);
          ss1 = (if in_available then ss\<lparr>available := AList.delete rid (available ss)\<rparr> else ss);
          in_excluded = (map_of (excluded ss1) rid \<noteq> None);
          ss2 = (if in_excluded then ss1\<lparr>excluded := AList.delete rid (excluded ss1)\<rparr> else ss1);
          done = (in_available \<or> in_excluded);
          s1 = s\<lparr>SystemSettings := ss2, enabled_repos := remove1 rid (enabled_repos s)\<rparr>;
          s2 = close_all_repositories env True s1;
          s3 = (if done
                then
                  (let st = SystemSettings s2;
                       s2a = s2\<lparr>SystemSettings := st\<lparr>order := remove1 rid (order st)\<rparr>\<rparr>;
                       rd = \<lparr>repoid = rid, description = [], plain_packages = [],
                             plain_database = [], dbcformat = [], service_port = [],
                             ssl_service_port = []\<rparr>;
                       saved = save_repository_settings (packagesext c) (conf_writable env) rd
                                 (\<not> disable) disable False (fs s2a (repositoriesconf c));
                       s2b = s2a\<lparr>fs := (fs s2a)(repositoriesconf c := snd saved)\<rparr>
                   in s2b\<lparr>SystemSettings := settings_clear env s2b\<rparr>)
                else s2);
          repo_mem_key = (rid, systemroot c);
          mem_inst = map_of (memory_db_instances s3) repo_mem_key;
          s4 = s3\<lparr>memory_db_instances := AList.delete repo_mem_key (memory_db_instances s3)\<rparr>;
          s5 = (case mem_inst of
                  None \<Rightarrow> s4
                | Some h \<Rightarrow> s4\<lparr>closeDB_calls := closeDB_calls s4 @ [h]\<rparr>)
      in if (case mem_inst of None \<Rightarrow> False | Some h \<Rightarrow> closeDB_error env h \<noteq> None)
         then (Some OperationalError, s5)
         else validate_repositories env c False (close_all_repositories env True s5))"

text \<open>\<^verbatim>\<open>get_package_action\<close>: 2 is upgrade, 1 install, 0 reinstall, -1 downgrade.\<close>

definition get_package_action ::
  "client_env \<Rightarrow> etp_const \<Rightarrow> int \<times> string \<Rightarrow> client \<Rightarrow> (exc + int) \<times> client" where
  "get_package_action env c match s =
     (case open_repository env c (snd match) s of
        (Inl e, s1) \<Rightarrow> (Inl e, s1)
      | (Inr None, s1) \<Rightarrow> (Inl AttributeError, s1)
      | (Inr (Some dbconn), s1) \<Rightarrow>
          (case installed_repository s1 of
             None \<Rightarrow> (Inl AttributeError, s1)
           | Some inst \<Rightarrow>
               (let (pkgkey, pkgslot) = retrieveKeySlot env dbconn (fst match)
                in case searchKeySlot env inst pkgkey pkgslot of
                     [] \<Rightarrow> (Inr 1, s1)
                   | installed_idpackage # _ \<Rightarrow>
                       (let pkgcmp = entropy_compare_versions env
                                       (getVersioningData env dbconn (fst match))
                                       (getVersioningData env inst installed_idpackage)
                        in if pkgcmp = 0
                           then (let inst_digest = retrieveDigest env inst installed_idpackage;
                                     repo_digest = retrieveDigest env dbconn (fst match)
                                 in if inst_digest \<noteq> repo_digest then (Inr 2, s1)
                                    else (Inr 0, s1))
                           else if pkgcmp > 0 then (Inr 2, s1)
                           else (Inr (- 1), s1)))))"

text \<open>
  The handles that \<^verbatim>\<open>close_all_repositories\<close> closes: those cached under a key that
  is not the key of an in-memory repository, in the order of the sorted keys.
\<close>

definition durable_cached :: "client \<Rightarrow> handle list" where
  "durable_cached s =
     map (\<lambda>k. the (map_of (repodb_cache s) k))
       (filter (\<lambda>k. map_of (memory_db_instances s) k = None) (sort (dict_keys (repodb_cache s))))"

text \<open>
  A sample installation: the repository \<^verbatim>\<open>main\<close> with its database on disk, the
  repository \<^verbatim>\<open>ghost\<close> whose database was never downloaded, the repository
  \<^verbatim>\<open>broken\<close> whose database fails validation, and the in-memory repository \<^verbatim>\<open>mem\<close>.
\<close>

definition demo_const :: etp_const where
  "demo_const = \<lparr>systemroot = [], clientdbid = ''client'', packagesext = ''.tbz2'',
     etpdatabasefile = ''packages.db'', dbnamerepoprefix = ''repo_'', entropyslotprefix = '':'',
     repositoriesconf = ''/etc/entropy/repositories.conf'',
     mask_file = ''/etc/entropy/packages/package.mask'',
     unmask_file = ''/etc/entropy/packages/package.unmask''\<rparr>"

definition main_db :: handle where
  "main_db = EntropyRepository ''/db/main/packages.db'' ''repo_main''"

definition broken_db :: handle where
  "broken_db = EntropyRepository ''/db/broken/packages.db'' ''repo_broken''"

definition mem_db :: handle where
  "mem_db = EntropyRepository ''/tmp/entropy_mem'' ''mem''"

definition client_db :: handle where
  "client_db = EntropyRepository ''/db/client/equo.db'' ''client''"

definition demo_settings :: system_settings where
  "demo_settings = \<lparr>available =
       [(''main'', \<lparr>dbpath = ''/db/main'', temporary = False,
                    post_branch_hop_script = ''/db/main/post_hop.sh'',
                    post_branch_upgrade_script = ''/db/main/post_upgrade.sh''\<rparr>),
        (''ghost'', \<lparr>dbpath = ''/db/ghost'', temporary = False,
                    post_branch_hop_script = ''/db/ghost/post_hop.sh'',
                    post_branch_upgrade_script = ''/db/ghost/post_upgrade.sh''\<rparr>),
        (''broken'', \<lparr>dbpath = ''/db/broken'', temporary = False,
                    post_branch_hop_script = ''/db/broken/post_hop.sh'',
                    post_branch_upgrade_script = ''/db/broken/post_upgrade.sh''\<rparr>),
        (''mem'', \<lparr>dbpath = ''/tmp/entropy_mem'', temporary = True,
                    post_branch_hop_script = [], post_branch_upgrade_script = []\<rparr>)],
     excluded = [], order = [''mem'', ''main'', ''ghost'', ''broken''], branch = ''5'',
     mask_matches = {}, unmask_matches = {}\<rparr>"

definition demo_client :: client where
  "demo_client = \<lparr>repodb_cache = [((''main'', []), main_db), ((''mem'', []), mem_db)],
     memory_db_instances = [((''mem'', []), mem_db)],
     repo_error_messages_cache = {}, enabled_repos = [''mem'', ''main''],
     can_run_sys_set_hooks = True, installed_repository = Some client_db,
     SystemSettings = demo_settings, fs = (\<lambda>_. None), branch_migration = [],
     outputs = [], stderr = [], closeDB_calls = [], script_runs = []\<rparr>"

definition demo_env :: client_env where
  "demo_env = \<lparr>db_isfile = (\<lambda>p. p = ''/db/main/packages.db'' \<or> p = ''/db/broken/packages.db''),
     closeDB_error = (\<lambda>_. None),
     listConfigProtectEntries = (\<lambda>_. None),
     validateDatabase = (\<lambda>h. if h = broken_db then Some SystemDatabaseError else None),
     settings_clear = (\<lambda>s. SystemSettings s),
     conf_writable = True,
     retrieveKeySlot = (\<lambda>_ _. (''app-misc/foo'', ''0'')),
     searchKeySlot = (\<lambda>_ key slot. if key = ''app-misc/foo'' \<and> slot = ''0'' then [7] else []),
     getVersioningData = (\<lambda>h i. if h = client_db then (''1.0'', [], 1) else (''1.0'', [], 2)),
     retrieveDigest = (\<lambda>h _. if h = client_db then ''d41d8'' else ''9e107''),
     entropy_compare_versions = (\<lambda>a b. snd (snd a) - snd (snd b)),
     idpackageValidator = (\<lambda>s h i live. (i, 0)),
     retrieveAtom = (\<lambda>_ _. ''app-misc/foo-1.0''),
     atom_match = (\<lambda>_ _. (- 1, [])),
     path_writable = (\<lambda>_. True),
     script_readable = (\<lambda>p. p = ''/db/main/post_hop.sh'' \<or> p = ''/db/main/post_upgrade.sh''),
     md5sum = (\<lambda>_. ''0cc175b9c0f1b6a831c399e269772661''),
     script_exit = (\<lambda>_. 0)\<rparr>"

text \<open>What opening and validating repositories leave alone.\<close>

definition same_core :: "client \<Rightarrow> client \<Rightarrow> bool" where
  "same_core s s' \<longleftrightarrow>
     memory_db_instances s' = memory_db_instances s \<and> closeDB_calls s' = closeDB_calls s \<and>
     SystemSettings s' = SystemSettings s \<and> installed_repository s' = installed_repository s \<and>
     fs s' = fs s \<and> stderr s' = stderr s"

text \<open>
  The exception, if any, that the body of the loop of \<^verbatim>\<open>validate_repositories\<close> meets
  for an id: the one of \<^verbatim>\<open>open_repository\<close>, or \<^verbatim>\<open>AttributeError\<close> on \<^verbatim>\<open>None\<close>, or
  the one of the structural checks. The two classes of failure the loop handles.
\<close>

definition validation_outcome :: "client_env \<Rightarrow> etp_const \<Rightarrow> client \<Rightarrow> string \<Rightarrow> exc option" where
  "validation_outcome env c s rid =
     (case fst (open_repository env c rid s) of
        Inl e \<Rightarrow> Some e
      | Inr None \<Rightarrow> Some AttributeError
      | Inr (Some dbc) \<Rightarrow>
          (case listConfigProtectEntries env dbc of
             Some e \<Rightarrow> Some e
           | None \<Rightarrow> validateDatabase env dbc))"

definition is_unavailable :: "exc option \<Rightarrow> bool" where
  "is_unavailable x = (case x of Some (RepositoryError _) \<Rightarrow> True | _ \<Rightarrow> False)"

definition is_corrupted :: "exc option \<Rightarrow> bool" where
  "is_corrupted x =
     (x = Some OperationalError \<or> x = Some DatabaseError \<or> x = Some SystemDatabaseError)"

text \<open>The messages a call of \<^verbatim>\<open>validate_repositories\<close> prints, and the loader's warnings.\<close>

definition validate_outputs :: "client_env \<Rightarrow> etp_const \<Rightarrow> bool \<Rightarrow> client \<Rightarrow> out_msg list" where
  "validate_outputs env c quiet s =
     drop (length (outputs s)) (outputs (snd (validate_repositories env c quiet s)))"

definition loader_warning :: "string \<Rightarrow> out_msg \<Rightarrow> bool" where
  "loader_warning rid m =
     (m = mk_output (msg_bad_id rid) 2 ''warning'' [] False \<or>
      m = mk_output (msg_not_downloaded rid) 2 ''warning'' [] False)"

text \<open>The diagnostics of \<^verbatim>\<open>validate_repositories\<close> itself for an id, by its outcome.\<close>

definition validate_messages :: "bool \<Rightarrow> string \<Rightarrow> exc option \<Rightarrow> out_msg list" where
  "validate_messages quiet rid oc =
     (if quiet then []
      else if is_unavailable oc
      then [mk_output (msg_not_available rid) 1 ''warning'' [] False,
            mk_output msg_please_update 1 ''warning'' ''!!! '' False]
      else if is_corrupted oc
      then [mk_output (msg_corrupted rid) 1 ''warning'' [] False]
      else [])"

text \<open>The sample installation with the repository \<^verbatim>\<open>ghost\<close> twice in the priority list.\<close>

definition dup_client :: client where
  "dup_client = demo_client\<lparr>SystemSettings := demo_settings\<lparr>order := [''ghost'', ''ghost'']\<rparr>\<rparr>"

subsection \<open>Branch migration hooks\<close>

text \<open>
  The engine of the installed-packages database (\<^verbatim>\<open>entropy.db\<close>) is not among the
  sources. The spec has one record
  \<^verbatim>\<open>(repositoryId, fromBranch, toBranch, scriptMd5, postUpgradeMd5)\<close> for a repository
  and a branch transition, used to decide whether a hook must run again: the records are a
  table from the first three components to the two checksums.
\<close>






definition hook_args :: "etp_const \<Rightarrow> string \<Rightarrow> string \<Rightarrow> string \<Rightarrow> string \<Rightarrow> string list" where
  "hook_args c script rid from_branch to_branch =
     [''/bin/sh'', script, rid, systemroot c @ ''/'', from_branch, to_branch]"















subsection \<open>Masking and unmasking a match\<close>

text \<open>
  \<^verbatim>\<open>is_match_masked\<close>: the validator of the repository handle, which reads the settings
  and the mask files of the client, returns the package id, or -1 for a masked package,
  and a reason.
\<close>

definition is_match_masked ::
  "client_env \<Rightarrow> etp_const \<Rightarrow> int \<times> string \<Rightarrow> bool \<Rightarrow> client \<Rightarrow> (exc + bool) \<times> client" where
  "is_match_masked env c match live_check s =
     (case open_repository env c (snd match) s of
        (Inl e, s1) \<Rightarrow> (Inl e, s1)
      | (Inr None, s1) \<Rightarrow> (Inl AttributeError, s1)
      | (Inr (Some dbconn), s1) \<Rightarrow>
          (let (idpackage, idreason) = idpackageValidator env s1 dbconn (fst match) live_check
           in if idpackage \<noteq> - 1 then (Inr False, s1) else (Inr True, s1)))"

text \<open>
  \<^verbatim>\<open>_clear_match_generic\<close>: unless \<^verbatim>\<open>dry_run\<close>, the match leaves both live sets, and
  every mask file that exists and is writable is rewritten without the lines that are
  neither comments nor empty and resolve to the match.
\<close>

definition clear_mask_file :: "client_env \<Rightarrow> int \<times> string \<Rightarrow> string \<Rightarrow> client \<Rightarrow> client" where
  "clear_mask_file env match mask_file_path s =
     (case fs s mask_file_path of
        None \<Rightarrow> s
      | Some lines \<Rightarrow>
          if path_writable env mask_file_path
          then s\<lparr>fs := (fs s)(mask_file_path \<mapsto>
                 filter (\<lambda>line.
                    let strip_line = strip line
                    in \<not> (\<not> (startswith strip_line ''#'' \<or> strip_line = []) \<and>
                          atom_match env s strip_line = match)) lines)\<rparr>
          else s)"

definition clear_match_generic ::
  "client_env \<Rightarrow> int \<times> string \<Rightarrow> string list \<Rightarrow> bool \<Rightarrow> client \<Rightarrow> client" where
  "clear_match_generic env match masking_list dry_run s =
     (if dry_run then s
      else
        let st = SystemSettings s;
            s1 = s\<lparr>SystemSettings := st\<lparr>unmask_matches := unmask_matches st - {match},
                                         mask_matches := mask_matches st - {match}\<rparr>\<rparr>
        in foldl (\<lambda>s' mask_file_path. clear_mask_file env match mask_file_path s') s1 masking_list)"

definition clear_match_mask ::
  "client_env \<Rightarrow> etp_const \<Rightarrow> int \<times> string \<Rightarrow> bool \<Rightarrow> client \<Rightarrow> client" where
  "clear_match_mask env c match dry_run s =
     clear_match_generic env match [mask_file c, unmask_file c] dry_run s"

text \<open>
  \<^verbatim>\<open>_mask_unmask_match_generic\<close>: \<^verbatim>\<open>False\<close> when the file, or the directory of a file
  that is missing, is not writable; with \<^verbatim>\<open>dry_run\<close> nothing is written; otherwise the
  keyword is appended to the stripped lines of the file.
\<close>

definition mask_unmask_match_generic ::
  "client_env \<Rightarrow> string \<Rightarrow> string \<Rightarrow> bool \<Rightarrow> client \<Rightarrow> bool \<times> client" where
  "mask_unmask_match_generic env keyword m_file dry_run s =
     (if fs s m_file = None \<and> \<not> path_writable env (dirname m_file) then (False, s)
      else if fs s m_file \<noteq> None \<and> \<not> path_writable env m_file then (False, s)
      else if dry_run then (True, s)
      else
        let content = (case fs s m_file of None \<Rightarrow> [] | Some lines \<Rightarrow> map strip lines)
        in (True, s\<lparr>fs := (fs s)(m_file \<mapsto>
                     map (\<lambda>line. line @ [CHR 0x0A]) (content @ [keyword]))\<rparr>))"

definition mask_match_generic ::
  "client_env \<Rightarrow> etp_const \<Rightarrow> int \<times> string \<Rightarrow> string \<Rightarrow> bool \<Rightarrow> client \<Rightarrow> bool \<times> client" where
  "mask_match_generic env c match keyword dry_run s =
     mask_unmask_match_generic env keyword (mask_file c) dry_run
       (clear_match_mask env c match dry_run s)"

definition unmask_match_generic ::
  "client_env \<Rightarrow> etp_const \<Rightarrow> int \<times> string \<Rightarrow> string \<Rightarrow> bool \<Rightarrow> client \<Rightarrow> bool \<times> client" where
  "unmask_match_generic env c match keyword dry_run s =
     mask_unmask_match_generic env keyword (unmask_file c) dry_run
       (clear_match_mask env c match dry_run s)"

text \<open>The four methods that name the keyword: the atom, or key and slot.\<close>

definition mask_match_by_atom ::
  "client_env \<Rightarrow> etp_const \<Rightarrow> int \<times> string \<Rightarrow> bool \<Rightarrow> client \<Rightarrow> (exc + bool) \<times> client" where
  "mask_match_by_atom env c match dry_run s =
     (case open_repository env c (snd match) s of
        (Inl e, s1) \<Rightarrow> (Inl e, s1)
      | (Inr None, s1) \<Rightarrow> (Inl AttributeError, s1)
      | (Inr (Some dbconn), s1) \<Rightarrow>
          (let r = mask_match_generic env c match (retrieveAtom env dbconn (fst match)) dry_run s1
           in (Inr (fst r), snd r)))"

definition mask_match_by_keyslot ::
  "client_env \<Rightarrow> etp_const \<Rightarrow> int \<times> string \<Rightarrow> bool \<Rightarrow> client \<Rightarrow> (exc + bool) \<times> client" where
  "mask_match_by_keyslot env c match dry_run s =
     (case open_repository env c (snd match) s of
        (Inl e, s1) \<Rightarrow> (Inl e, s1)
      | (Inr None, s1) \<Rightarrow> (Inl AttributeError, s1)
      | (Inr (Some dbconn), s1) \<Rightarrow>
          (let (key, slot) = retrieveKeySlot env dbconn (fst match);
               keyslot = key @ entropyslotprefix c @ slot;
               r = mask_match_generic env c match keyslot dry_run s1
           in (Inr (fst r), snd r)))"

definition unmask_match_by_atom ::
  "client_env \<Rightarrow> etp_const \<Rightarrow> int \<times> string \<Rightarrow> bool \<Rightarrow> client \<Rightarrow> (exc + bool) \<times> client" where
  "unmask_match_by_atom env c match dry_run s =
     (case open_repository env c (snd match) s of
        (Inl e, s1) \<Rightarrow> (Inl e, s1)
      | (Inr None, s1) \<Rightarrow> (Inl AttributeError, s1)
      | (Inr (Some dbconn), s1) \<Rightarrow>
          (let r = unmask_match_generic env c match (retrieveAtom env dbconn (fst match)) dry_run s1
           in (Inr (fst r), snd r)))"

definition unmask_match_by_keyslot ::
  "client_env \<Rightarrow> etp_const \<Rightarrow> int \<times> string \<Rightarrow> bool \<Rightarrow> client \<Rightarrow> (exc + bool) \<times> client" where
  "unmask_match_by_keyslot env c match dry_run s =
     (case open_repository env c (snd match) s of
        (Inl e, s1) \<Rightarrow> (Inl e, s1)
      | (Inr None, s1) \<Rightarrow> (Inl AttributeError, s1)
      | (Inr (Some dbconn), s1) \<Rightarrow>
          (let (key, slot) = retrieveKeySlot env dbconn (fst match);
               keyslot = key @ entropyslotprefix c @ slot;
               r = unmask_match_generic env c match keyslot dry_run s1
           in (Inr (fst r), snd r)))"

text \<open>
  \<^verbatim>\<open>_mask_unmask_match\<close>: a method name that is not in the dictionary raises
  \<^verbatim>\<open>AttributeError\<close>; after a change that was written the settings are cleared. (The
  caches emptied on the way are not kept here.)
\<close>

definition mask_unmask_match ::
  "client_env \<Rightarrow> int \<times> string \<Rightarrow> string \<Rightarrow>
     (string \<times> (int \<times> string \<Rightarrow> bool \<Rightarrow> client \<Rightarrow> (exc + bool) \<times> client)) list \<Rightarrow>
     bool \<Rightarrow> client \<Rightarrow> (exc + bool) \<times> client" where
  "mask_unmask_match env match method methods_reference dry_run s =
     (case map_of methods_reference method of
        None \<Rightarrow> (Inl AttributeError, s)
      | Some f \<Rightarrow>
          (case f match dry_run s of
             (Inl e, s1) \<Rightarrow> (Inl e, s1)
           | (Inr done, s1) \<Rightarrow>
               (Inr done,
                if done \<and> \<not> dry_run then s1\<lparr>SystemSettings := settings_clear env s1\<rparr> else s1)))"

text \<open>\<^verbatim>\<open>mask_match\<close> and \<^verbatim>\<open>unmask_match\<close>.\<close>

definition mask_match ::
  "client_env \<Rightarrow> etp_const \<Rightarrow> int \<times> string \<Rightarrow> string \<Rightarrow> bool \<Rightarrow> client \<Rightarrow> (exc + bool) \<times> client" where
  "mask_match env c match method dry_run s =
     (case is_match_masked env c match False s of
        (Inl e, s1) \<Rightarrow> (Inl e, s1)
      | (Inr True, s1) \<Rightarrow> (Inr True, s1)
      | (Inr False, s1) \<Rightarrow>
          (let methods = [(''atom'', mask_match_by_atom env c),
                          (''keyslot'', mask_match_by_keyslot env c)]
           in case mask_unmask_match env match method methods dry_run s1 of
                (Inl e, s2) \<Rightarrow> (Inl e, s2)
              | (Inr rc, s2) \<Rightarrow>
                  (Inr rc,
                   if dry_run
                   then (let st = SystemSettings s2
                         in s2\<lparr>SystemSettings :=
                                st\<lparr>unmask_matches := unmask_matches st - {match},
                                   mask_matches := insert match (mask_matches st)\<rparr>\<rparr>)
                   else s2)))"

definition unmask_match ::
  "client_env \<Rightarrow> etp_const \<Rightarrow> int \<times> string \<Rightarrow> string \<Rightarrow> bool \<Rightarrow> client \<Rightarrow> (exc + bool) \<times> client" where
  "unmask_match env c match method dry_run s =
     (case is_match_masked env c match False s of
        (Inl e, s1) \<Rightarrow> (Inl e, s1)
      | (Inr False, s1) \<Rightarrow> (Inr True, s1)
      | (Inr True, s1) \<Rightarrow>
          (let methods = [(''atom'', unmask_match_by_atom env c),
                          (''keyslot'', unmask_match_by_keyslot env c)]
           in case mask_unmask_match env match method methods dry_run s1 of
                (Inl e, s2) \<Rightarrow> (Inl e, s2)
              | (Inr rc, s2) \<Rightarrow>
                  (Inr rc,
                   if dry_run
                   then (let st = SystemSettings s2
                         in s2\<lparr>SystemSettings :=
                                st\<lparr>unmask_matches := insert match (unmask_matches st),
                                   mask_matches := mask_matches st - {match}\<rparr>\<rparr>)
                   else s2)))"

text \<open>
  The sample installation with a mask file, and a validator that calls a package masked
  when its atom is a line of the mask file; in the second environment nothing is
  writable.
\<close>

definition masking_client :: client where
  "masking_client = demo_client\<lparr>fs := (\<lambda>p. if p = ''/etc/entropy/packages/package.mask''
       then Some [''sys-apps/bar'' @ [CHR 0x0A]] else None)\<rparr>"

definition masking_env :: client_env where
  "masking_env = demo_env\<lparr>idpackageValidator := (\<lambda>s h i live.
       if retrieveAtom demo_env h i \<in> set (map strip
            (case fs s ''/etc/entropy/packages/package.mask'' of None \<Rightarrow> [] | Some ls \<Rightarrow> ls))
       then (- 1, 1) else (i, 0))\<rparr>"

definition readonly_masking_env :: client_env where
  "readonly_masking_env = masking_env\<lparr>path_writable := (\<lambda>_. False)\<rparr>"

section \<open>Verified properties\<close>

subsection \<open>Paths and backups\<close>

lemma str_nat_digits: "set (str_nat n) \<subseteq> set ''0123456789''"
proof (induction n rule: str_nat.induct)
  case (1 n)
  have m: "''0123456789'' ! (n mod 10) \<in> set ''0123456789''"
    by (rule nth_mem) simp
  show ?case
  proof (cases "n < 10")
    case True
    then have "''0123456789'' ! n \<in> set ''0123456789''" by (intro nth_mem) simp
    with True show ?thesis by (subst str_nat.simps) simp
  next
    case False
    with 1 m show ?thesis by (subst str_nat.simps) simp
  qed
qed

lemma str_nat_no_slash: "CHR ''/'' \<notin> set (str_nat n)"
  using str_nat_digits [of n] by auto

lemma get_ts_no_slash: "CHR ''/'' \<notin> set (get_ts ts)"
  by (simp add: get_ts_def str_nat_no_slash)

lemma basename_no_slash: "CHR ''/'' \<notin> set (basename p)"
proof
  assume "CHR ''/'' \<in> set (basename p)"
  then have "CHR ''/'' \<in> set (takeWhile (\<lambda>c. c \<noteq> CHR ''/'') (rev p))"
    by (simp add: basename_def)
  then show False by (auto dest: set_takeWhileD)
qed

lemma path_head_append_slash:
  assumes "CHR ''/'' \<notin> set name"
  shows "path_head (d @ ''/'' @ name) = d @ ''/''"
proof -
  have "dropWhile (\<lambda>c. c \<noteq> CHR ''/'') (rev name @ CHR ''/'' # rev d) = CHR ''/'' # rev d"
    using assms by (auto simp add: dropWhile_append3)
  then show ?thesis by (simp add: path_head_def)
qed

lemma path_head_slashes:
  assumes "CHR ''/'' \<notin> set name"
  shows "path_head (replicate k (CHR ''/'') @ name) = replicate k (CHR ''/'')"
proof (cases k)
  case 0
  have "dropWhile (\<lambda>c. c \<noteq> CHR ''/'') (rev name) = []" using assms by auto
  with 0 show ?thesis by (simp add: path_head_def)
next
  case (Suc j)
  have "replicate (Suc j) (CHR ''/'') = replicate j (CHR ''/'') @ ''/''"
    by (simp add: replicate_append_same)
  then have "path_head (replicate (Suc j) (CHR ''/'') @ name) = path_head (replicate j (CHR ''/'') @ ''/'' @ name)"
    by simp
  also have "\<dots> = replicate j (CHR ''/'') @ ''/''" by (rule path_head_append_slash [OF assms])
  finally show ?thesis using Suc by (simp add: replicate_append_same)
qed

lemma dirname_shape:
  "dirname p = replicate (length (dirname p)) (CHR ''/'') \<or> (dirname p \<noteq> [] \<and> last (dirname p) \<noteq> CHR ''/'')"
proof -
  let ?h = "path_head p"
  show ?thesis
  proof (cases "?h \<noteq> [] \<and> ?h \<noteq> replicate (length ?h) (CHR ''/'')")
    case False
    then have "dirname p = ?h" by (auto simp add: dirname_def Let_def)
    with False show ?thesis by auto
  next
    case True
    let ?r = "dropWhile (\<lambda>c. c = CHR ''/'') (rev ?h)"
    from True have d: "dirname p = rev ?r" by (simp add: dirname_def Let_def)
    have ne: "?r \<noteq> []"
    proof
      assume "?r = []"
      then have "\<forall>c\<in>set (rev ?h). c = CHR ''/''" by (simp add: dropWhile_eq_Nil_conv)
      then have "?h = replicate (length ?h) (CHR ''/'')"
        by (intro replicate_eqI) auto
      with True show False by simp
    qed
    then have "hd ?r \<noteq> CHR ''/''" using hd_dropWhile [of "\<lambda>c. c = CHR ''/''" "rev ?h"] by simp
    with ne d show ?thesis by (simp add: last_rev)
  qed
qed

lemma dirname_path_join:
  assumes "CHR ''/'' \<notin> set name"
  shows "dirname (path_join (dirname p) name) = dirname p"
proof -
  let ?d = "dirname p"
  have ns: "\<not> startswith name ''/''"
    using assms by (cases name) (auto simp: startswith_def)
  from dirname_shape [of p] show ?thesis
  proof
    assume sl: "?d = replicate (length ?d) (CHR ''/'')"
    have "?d = [] \<or> endswith ?d ''/''"
    proof (cases "length ?d")
      case 0 then show ?thesis by simp
    next
      case (Suc j)
      with sl have "?d = replicate j (CHR ''/'') @ ''/''"
        by (metis replicate_Suc replicate_append_same append_Cons append_Nil)
      then have "endswith ?d ''/''" by (simp add: endswith_def)
      then show ?thesis ..
    qed
    with ns have j: "path_join ?d name = ?d @ name" by (auto simp: path_join_def)
    have "path_head (?d @ name) = ?d"
      using path_head_slashes [OF assms, of "length ?d"] sl by simp
    then have "dirname (?d @ name) = ?d"
      unfolding dirname_def [of "?d @ name"] Let_def using sl by auto
    with j show ?thesis by simp
  next
    assume nl: "?d \<noteq> [] \<and> last ?d \<noteq> CHR ''/''"
    then have "\<not> endswith ?d ''/''"
      by (auto simp: endswith_def) (metis append_butlast_last_id butlast_conv_take diff_Suc_1 append_take_drop_id last_snoc same_append_eq length_greater_0_conv Suc_pred list.inject)
    with ns nl have j: "path_join ?d name = ?d @ ''/'' @ name" by (auto simp: path_join_def)
    have h: "path_head (?d @ ''/'' @ name) = ?d @ ''/''" by (rule path_head_append_slash [OF assms])
    have nall: "?d @ ''/'' \<noteq> replicate (length (?d @ ''/'')) (CHR ''/'')"
    proof
      assume "?d @ ''/'' = replicate (length (?d @ ''/'')) (CHR ''/'')"
      then have "set (?d @ ''/'') \<subseteq> {CHR ''/''}" by (metis set_replicate_conv_if empty_subsetI subset_refl)
      then have "set ?d \<subseteq> {CHR ''/''}" by simp
      moreover from nl have "last ?d \<in> set ?d" by simp
      ultimately show False using nl by blast
    qed
    have "dropWhile (\<lambda>c. c = CHR ''/'') (rev ?d) = rev ?d"
      using nl by (cases "rev ?d") (auto simp: last_rev [symmetric] hd_rev)
    then have r: "rev (dropWhile (\<lambda>c. c = CHR ''/'') (rev (?d @ ''/''))) = ?d" by simp
    have "dirname (?d @ ''/'' @ name) = ?d"
      unfolding dirname_def [of "?d @ ''/'' @ name"] Let_def h using nall r by simp
    with j show ?thesis by simp
  qed
qed

lemma comp_dbname_no_slash:
  "CHR ''/'' \<notin> set pfx \<Longrightarrow> CHR ''/'' \<notin> set (pfx @ basename db_path @ ''.'' @ get_ts ts @ ''.bz2'')"
  by (simp add: basename_no_slash get_ts_no_slash)

text \<open>
  Claim C10. \<^verbatim>\<open>backup_database\<close> ignores its \<^verbatim>\<open>backup_dir\<close> argument: the
  result and every effect are the same for any two values of it; when the preflight check
  passes, the one call of \<^verbatim>\<open>compress_file\<close> writes to the path joined from the
  directory of \<^verbatim>\<open>dbpath\<close> and the archive name; and (for a backup prefix without
  a slash) the directory of that path is the directory of \<^verbatim>\<open>dbpath\<close>.
\<close>

theorem backup_database_ignores_backup_dir:
  assumes "CHR ''/'' \<notin> set pfx"
  shows "backup_database pfx env db_path bd silent lvl = backup_database pfx env db_path bd' silent lvl
    \<and> compress_calls (snd (backup_database pfx env db_path bd silent lvl)) =
        (if access_W env (dirname db_path) \<and> isdir env (dirname db_path) \<and> isfile env db_path \<and>
            access_R env db_path \<and> check_required_space env (dirname db_path) (1024000 * 300)
         then [(db_path,
                path_join (dirname db_path) (pfx @ basename db_path @ ''.'' @ get_ts (now env) @ ''.bz2''),
                if lvl \<notin> set [1..9] then 9 else lvl)]
         else [])
    \<and> dirname (path_join (dirname db_path) (pfx @ basename db_path @ ''.'' @ get_ts (now env) @ ''.bz2''))
        = dirname db_path"
proof (intro conjI)
  show "backup_database pfx env db_path bd silent lvl = backup_database pfx env db_path bd' silent lvl"
    by (simp add: backup_database_def)
  show "compress_calls (snd (backup_database pfx env db_path bd silent lvl)) =
        (if access_W env (dirname db_path) \<and> isdir env (dirname db_path) \<and> isfile env db_path \<and>
            access_R env db_path \<and> check_required_space env (dirname db_path) (1024000 * 300)
         then [(db_path,
                path_join (dirname db_path) (pfx @ basename db_path @ ''.'' @ get_ts (now env) @ ''.bz2''),
                if lvl \<notin> set [1..9] then 9 else lvl)]
         else [])"
    by (simp add: backup_database_def Let_def no_io_def)
  show "dirname (path_join (dirname db_path) (pfx @ basename db_path @ ''.'' @ get_ts (now env) @ ''.bz2''))
        = dirname db_path"
    by (rule dirname_path_join [OF comp_dbname_no_slash [OF assms]])
qed

theorem backup_database_ignores_backup_dir_witness:
  "backup_database ''entropy_backup_'' ok_env ''/var/lib/entropy/equo.db'' (Some ''/mnt/backups'') True 9
     = backup_database ''entropy_backup_'' ok_env ''/var/lib/entropy/equo.db'' None True 9
   \<and> compress_calls (snd (backup_database ''entropy_backup_'' ok_env ''/var/lib/entropy/equo.db''
         (Some ''/mnt/backups'') True 9))
     = [(''/var/lib/entropy/equo.db'',
         ''/var/lib/entropy/entropy_backup_equo.db.2010115_10h30m0s.bz2'', 9)]
   \<and> dirname ''/var/lib/entropy/entropy_backup_equo.db.2010115_10h30m0s.bz2'' = ''/var/lib/entropy''"
proof -
  have h: "CHR ''/'' \<notin> set ''entropy_backup_''" by simp
  have n: "path_join ''/var/lib/entropy''

             (''entropy_backup_'' @ basename ''/var/lib/entropy/equo.db'' @ ''.'' @ get_ts (now ok_env) @ ''.bz2'')
           = ''/var/lib/entropy/entropy_backup_equo.db.2010115_10h30m0s.bz2''"
    by (simp add: path_join_def basename_def get_ts_def ok_env_def
        str_nat.simps startswith_def endswith_def)
  have d: "dirname ''/var/lib/entropy/equo.db'' = ''/var/lib/entropy''"
    by (simp add: dirname_def path_head_def Let_def)
  have ok: "access_W ok_env p" "access_R ok_env p" "isdir ok_env p" "isfile ok_env p"
    "check_required_space ok_env p k" for p k
    by (simp_all add: ok_env_def)
  note t = backup_database_ignores_backup_dir [OF h, of ok_env "''/var/lib/entropy/equo.db''"
      "Some ''/mnt/backups''" True 9 None, unfolded n d]
  show ?thesis
  proof (intro conjI)
    show "backup_database ''entropy_backup_'' ok_env ''/var/lib/entropy/equo.db'' (Some ''/mnt/backups'') True 9
        = backup_database ''entropy_backup_'' ok_env ''/var/lib/entropy/equo.db'' None True 9"
      by (rule t [THEN conjunct1])
    show "compress_calls (snd (backup_database ''entropy_backup_'' ok_env ''/var/lib/entropy/equo.db''
           (Some ''/mnt/backups'') True 9))
        = [(''/var/lib/entropy/equo.db'',
            ''/var/lib/entropy/entropy_backup_equo.db.2010115_10h30m0s.bz2'', 9)]"
      using t [THEN conjunct2, THEN conjunct1] by (simp add: ok)
    show "dirname ''/var/lib/entropy/entropy_backup_equo.db.2010115_10h30m0s.bz2'' = ''/var/lib/entropy''"
      by (rule t [THEN conjunct2, THEN conjunct2])
  qed
qed

lemma backup_database_preflight_fails:
  assumes "\<not> (access_W env (dirname db_path) \<and> isdir env (dirname db_path) \<and> isfile env db_path \<and>
            access_R env db_path \<and> check_required_space env (dirname db_path) (1024000 * 300))"
  shows "backup_database pfx env db_path bd silent lvl =
     (if silent then (Inl UnboundLocalError, no_io)
      else (Inr (False, ''Cannot backup selected database: '' @ db_path @ '', permission denied''),
            no_io\<lparr>printed := [mk_output (''Cannot backup selected database: '' @ db_path
               @ '', permission denied'') 1 ''error'' '' @@ '' False]\<rparr>))"
  using assms by (simp add: backup_database_def Let_def)

lemma restore_database_preflight_fails:
  assumes "\<not> (access_W env (dirname dst) \<and> isdir env (dirname dst) \<and> isfile env bp \<and>
            access_R env bp \<and> check_required_space env (dirname dst) (1024000 * 200))"
  shows "restore_database env bp dst silent =
     (if silent then (Inl UnboundLocalError, no_io)
      else (Inr (False, ''Cannot restore selected backup: '' @ basename bp @ '', permission denied''),
            no_io\<lparr>printed := [mk_output (''Cannot restore selected backup: '' @ basename bp
               @ '', permission denied'') 1 ''error'' '' @@ '' False]\<rparr>))"
  using assms by (simp add: restore_database_def Let_def)

text \<open>
  Claim C9. With \<^verbatim>\<open>silent = True\<close> a failed preflight check does not return a
  failure result with a reason: both operations raise \<^verbatim>\<open>UnboundLocalError\<close>
  (nothing is compressed or decompressed and nothing is printed). Here the target
  directory is not writable.
\<close>

theorem preflight_failure_silent_raises:
  "backup_database ''entropy_backup_'' readonly_env ''/var/lib/entropy/equo.db'' None True 9
     = (Inl UnboundLocalError, no_io)
   \<and> restore_database readonly_env ''/var/lib/entropy/entropy_backup_equo.db.2010115_10h30m0s.bz2''
        ''/var/lib/entropy/equo.db'' True
     = (Inl UnboundLocalError, no_io)"
proof -
  have w: "\<not> access_W readonly_env p" for p by (simp add: readonly_env_def ok_env_def)
  show ?thesis
    using backup_database_preflight_fails [of readonly_env "''/var/lib/entropy/equo.db''" _ _ True]
      restore_database_preflight_fails [of readonly_env "''/var/lib/entropy/equo.db''" _ True]
    by (simp add: w)
qed

subsection \<open>Resource lock\<close>


lemma create_first:
  assumes "RESOURCES_LOCK_F_REF s = None" "RESOURCES_LOCK_F_COUNT s = 0"
    and "resources_create_lock p env mypid s = (Inr True, s')"
  shows "lock_held p mypid 1 s'"
  using assms
  by (auto simp: resources_create_lock_def create_pid_file_lock_def Let_def lock_held_def
      split: if_splits flock_outcome.splits)

lemma create_again:
  assumes "lock_held p mypid k s"
  shows "resources_create_lock p env mypid s = (Inr True, s\<lparr>RESOURCES_LOCK_F_COUNT := k + 1\<rparr>)"
  using assms by (simp add: resources_create_lock_def create_pid_file_lock_def lock_held_def)

lemma lock_held_count:
  "lock_held p mypid k s \<Longrightarrow> lock_held p mypid j (s\<lparr>RESOURCES_LOCK_F_COUNT := j\<rparr>)"
  by (simp add: lock_held_def)

lemma create_locks_held:
  assumes "lock_held p mypid k s" "create_locks p mypid envs s = Some s'"
  shows "lock_held p mypid (k + int (length envs)) s'"
  using assms
proof (induction envs arbitrary: k s)
  case Nil
  then show ?case by simp
next
  case (Cons env envs)
  from Cons.prems(1) have c: "resources_create_lock p env mypid s = (Inr True, s\<lparr>RESOURCES_LOCK_F_COUNT := k + 1\<rparr>)"
    by (rule create_again)
  with Cons.prems(2) have "create_locks p mypid envs (s\<lparr>RESOURCES_LOCK_F_COUNT := k + 1\<rparr>) = Some s'"
    by simp
  with Cons.IH [OF lock_held_count [OF Cons.prems(1)]] have "lock_held p mypid (k + 1 + int (length envs)) s'"
    by blast
  then show ?case by (simp add: add.assoc)
qed

lemma create_locks_fresh:
  assumes "RESOURCES_LOCK_F_REF s = None" "RESOURCES_LOCK_F_COUNT s = 0"
    and "envs \<noteq> []" "create_locks p mypid envs s = Some s'"
  shows "lock_held p mypid (int (length envs)) s'"
proof -
  from assms(3) obtain env rest where e: "envs = env # rest" by (cases envs) auto
  with assms(4) obtain s1 where 1: "resources_create_lock p env mypid s = (Inr True, s1)"
    and 2: "create_locks p mypid rest s1 = Some s'"
    by (auto split: prod.splits sum.splits bool.splits if_splits)
  from create_first [OF assms(1,2) 1] have "lock_held p mypid 1 s1" .
  from create_locks_held [OF this 2] e show ?thesis by simp
qed

lemma remove_held:
  assumes "lock_held p mypid k s" "1 < k"
  shows "lock_held p mypid (k - 1) (resources_remove_lock p s)"
  using assms by (simp add: resources_remove_lock_def lock_held_def Let_def)

lemma remove_last:
  assumes "lock_held p mypid 1 s"
  shows "lock_released p (resources_remove_lock p s)"
  using assms by (simp add: resources_remove_lock_def lock_held_def lock_released_def Let_def)

lemma remove_locks_held:
  assumes "lock_held p mypid k s" "int n < k"
  shows "lock_held p mypid (k - int n) (remove_locks p n s)"
  using assms
proof (induction n arbitrary: k s)
  case 0
  then show ?case by simp
next
  case (Suc n)
  from Suc.prems have "lock_held p mypid (k - 1) (resources_remove_lock p s)"
    by (intro remove_held) auto
  from Suc.IH [OF this] Suc.prems(2) show ?case by (simp add: algebra_simps)
qed

lemma remove_locks_Suc:
  "remove_locks p (Suc n) s = resources_remove_lock p (remove_locks p n s)"
  by (induction n arbitrary: s) simp_all

text \<open>
  Claim C4. Starting with the lock not held by this process, \<open>N \<ge> 1\<close> calls of
  \<^verbatim>\<open>resources_create_lock\<close> that all return \<^verbatim>\<open>True\<close>, followed by \<open>N\<close> calls of
  \<^verbatim>\<open>resources_remove_lock\<close>, leave the lock released: counter 0, file reference cleared,
  OS-level lock dropped, PID file removed. Followed by only \<open>N - 1\<close> releases they leave
  it held: counter 1, file reference, OS-level lock and PID file intact.
\<close>

theorem lock_reentrancy:
  assumes "RESOURCES_LOCK_F_REF s = None" and "RESOURCES_LOCK_F_COUNT s = 0"
    and "1 \<le> length envs"
    and "create_locks p mypid envs s = Some s'"
  shows "lock_released p (remove_locks p (length envs) s')
       \<and> lock_held p mypid 1 (remove_locks p (length envs - 1) s')"
proof -
  from assms(3) have ne: "envs \<noteq> []" by auto
  from create_locks_fresh [OF assms(1,2) ne assms(4)]
  have h: "lock_held p mypid (int (length envs)) s'" .
  obtain m where m: "length envs = Suc m" using assms(3) by (cases "length envs") auto
  from remove_locks_held [OF h, of m] m
  have 1: "lock_held p mypid 1 (remove_locks p m s')" by simp
  from remove_last [OF 1] have "lock_released p (remove_locks p (Suc m) s')"
    by (simp only: remove_locks_Suc)
  with 1 m show ?thesis by simp
qed

theorem lock_reentrancy_witness:
  "lock_released ''/var/run/entropy/.using_resources''
     (remove_locks ''/var/run/entropy/.using_resources'' 3
        (the (create_locks ''/var/run/entropy/.using_resources'' 4242
           [granting_env, contended_env, granting_env] fresh_lock_state)))
   \<and> lock_held ''/var/run/entropy/.using_resources'' 4242 1
     (remove_locks ''/var/run/entropy/.using_resources'' 2
        (the (create_locks ''/var/run/entropy/.using_resources'' 4242
           [granting_env, contended_env, granting_env] fresh_lock_state)))"
proof -
  have c: "create_locks ''/var/run/entropy/.using_resources'' 4242
      [granting_env, contended_env, granting_env] fresh_lock_state
    = Some (the (create_locks ''/var/run/entropy/.using_resources'' 4242
      [granting_env, contended_env, granting_env] fresh_lock_state))"
    by (simp add: resources_create_lock_def create_pid_file_lock_def fresh_lock_state_def
        granting_env_def contended_env_def Let_def)
  have a: "RESOURCES_LOCK_F_REF fresh_lock_state = None" "RESOURCES_LOCK_F_COUNT fresh_lock_state = 0"
    by (simp_all add: fresh_lock_state_def)
  have l: "1 \<le> length [granting_env, contended_env, granting_env]" by simp
  have n3: "length [granting_env, contended_env, granting_env] = 3" by simp
  have n2: "(3::nat) - 1 = 2" by simp
  from lock_reentrancy [OF a l c, unfolded n3 n2] show ?thesis .
qed

subsection \<open>Rewriting the repository configuration file\<close>

lemma startswith_append: "startswith x (a @ b) \<Longrightarrow> startswith x a"
proof -
  assume "startswith x (a @ b)"
  then have "take (length a + length b) x = a @ b" by (simp add: startswith_def)
  then have "take (length a) (take (length a + length b) x) = a" by simp
  then show ?thesis by (simp add: startswith_def min_def)
qed

lemma split_on_nonempty: "split_on d s \<noteq> []"
  by (induction s) (auto split: list.splits)

lemma split_on_Cons_other: "c \<noteq> d \<Longrightarrow> length (split_on d (c # s)) = length (split_on d s)"
  using split_on_nonempty [of d s] by (cases "split_on d s") auto

lemma five_fields_hash: "five_fields (CHR ''#'' # x) = five_fields x"
  using split_on_nonempty [of "CHR ''|''" x]
  by (cases "split_on (CHR ''|'') x") (auto simp: five_fields_def)

lemma startswith_hash: "startswith x ''#'' \<Longrightarrow> x = CHR ''#'' # drop 1 x"
  by (cases x) (auto simp: startswith_def)

lemma repolines_data_lines:
  "(cc, xid, line) \<in> set (repolines_data_of rid disable enable n xs) \<Longrightarrow>
   \<forall>x \<in> set xs. five_fields x \<Longrightarrow> five_fields line"
proof (induction xs arbitrary: n)
  case Nil
  then show ?case by simp
next
  case (Cons x xs)
  from Cons.prems(2) have fx: "five_fields x" by simp
  have fd: "startswith x ''#'' \<Longrightarrow> five_fields (drop 1 x)"
    using fx startswith_hash [of x] five_fields_hash [of "drop 1 x"] by simp
  from Cons.prems(1) consider
    (here) "line = (if disable \<and> split_on (CHR ''|'') x ! 1 = rid
                   then (if \<not> startswith x ''#'' then ''#'' @ x else x)
                   else if enable \<and> split_on (CHR ''|'') x ! 1 = rid \<and> startswith x ''#'' then drop 1 x
                   else x)"
    | (there) "(cc, xid, line) \<in> set (repolines_data_of rid disable enable (Suc n) xs)"
    by (auto simp: Let_def)
  then show ?case
  proof cases
    case here
    then show ?thesis using fx fd by (auto simp: five_fields_hash split: if_splits)
  next
    case there
    with Cons.IH Cons.prems(2) show ?thesis by simp
  qed
qed

lemma filter_not_mem_filter: "filter (\<lambda>x. x \<notin> set (filter P xs)) xs = filter (\<lambda>x. \<not> P x) xs"
  by (rule filter_cong) auto

lemma kept_lines:
  "filter (\<lambda>x. \<not> repo_line_like x) (filter (\<lambda>x. \<not> startswith x (''repository|'' @ r)) xs)
   = filter (\<lambda>x. \<not> repo_line_like x) xs"
proof -
  have "startswith x (''repository|'' @ r) \<Longrightarrow> repo_line_like x" for x
    using startswith_append [of x "''repository|''" r] by (simp add: repo_line_like_def)
  then show ?thesis by (auto intro: filter_cong)
qed

lemma removed_entries_kept:
  "filter (\<lambda>x. \<not> repo_line_like x) (removed_entries rd False disable enable xs)
   = filter (\<lambda>x. \<not> repo_line_like x) xs"
  using kept_lines [of "repoid rd" xs] by (simp add: removed_entries_def del: filter_filter)

lemma save_content_split:
  "save_repository_settings_content rd False disable enable lines =
     filter (\<lambda>x. \<not> repo_line_like x) (map strip lines) @
     map (\<lambda>(cc, xid, line). line) (new_repolines_data rd disable enable
       (filter five_fields (filter repo_line_like
          (removed_entries rd False disable enable (map strip lines)))))"
  unfolding save_repository_settings_content_def Let_def filter_not_mem_filter removed_entries_kept
  by simp

lemma new_repolines_data_lines:
  assumes "(cc, xid, x) \<in> set (new_repolines_data rd disable enable xs)"
    and "\<forall>x \<in> set xs. five_fields x"
  shows "five_fields x \<or> (\<not> disable \<and> \<not> enable \<and> x = repository_line rd)"
proof (cases "\<not> disable \<and> \<not> enable")
  case True
  with assms(1) have "(cc, xid, x) \<in> set (repolines_data_of (repoid rd) disable enable 0 xs)
      \<or> x = repository_line rd"
    by (auto simp: new_repolines_data_def Let_def)
  with True repolines_data_lines [OF _ assms(2)] show ?thesis by blast
next
  case False
  with assms(1) have "(cc, xid, x) \<in> set (repolines_data_of (repoid rd) disable enable 0 xs)"
    by (auto simp: new_repolines_data_def Let_def)
  from repolines_data_lines [OF this assms(2)] show ?thesis ..
qed


lemma write_ordered_other_lines:
  "filter (\<lambda>x. \<not> (startswith x ''repository|'' \<and> five_fields x))
      (write_ordered_repositories_entries_content ord lines)
   = filter (\<lambda>x. \<not> (startswith x ''repository|'' \<and> five_fields x)) (map strip lines)"
proof -
  let ?P = "\<lambda>x. startswith x ''repository|'' \<and> five_fields x"
  let ?c = "map strip lines"
  have "filter (\<lambda>x. \<not> ?P x) (concat (map (\<lambda>rid. filter (\<lambda>x. rid = split_on (CHR ''|'') x ! 1)
          (filter ?P ?c)) ord)) = []"
    by (induction ord) (auto simp: filter_empty_conv)
  moreover have "filter (\<lambda>x. x \<notin> set (filter ?P ?c)) ?c = filter (\<lambda>x. \<not> ?P x) ?c"
    by (rule filter_not_mem_filter)
  ultimately show ?thesis
    unfolding write_ordered_repositories_entries_content_def Let_def by simp
qed

text \<open>
  Claim C3, as the code has it. Lines are compared after \<^verbatim>\<open>strip()\<close>.
  \<^item> Reordering (\<^verbatim>\<open>__write_ordered_repositories_entries\<close>) treats as repository lines
    exactly the lines that start with \<^verbatim>\<open>repository|\<close> and have five fields: all other
    lines, malformed ones included, are written back, in their order.
  \<^item> Adding, enabling and disabling (\<^verbatim>\<open>__save_repository_settings\<close> without
    \<^verbatim>\<open>remove\<close>) write back first every line that neither starts with
    \<^verbatim>\<open>repository|\<close> nor is a comment with one \<^verbatim>\<open>#\<close> containing it; every other line
    written has five fields or is the line of the added repository. So a line that looks
    like a repository line and has not five fields is dropped, not passed through.
  \<^item> Removing writes back every line but those that start with \<^verbatim>\<open>repository|\<close>
    followed by the id, or are comments with one \<^verbatim>\<open>#\<close> containing that.
\<close>

theorem config_rewrite_lines:
  "filter (\<lambda>x. \<not> (startswith x ''repository|'' \<and> five_fields x))
      (write_ordered_repositories_entries_content ord lines)
     = filter (\<lambda>x. \<not> (startswith x ''repository|'' \<and> five_fields x)) (map strip lines)
   \<and> take (length (filter (\<lambda>x. \<not> repo_line_like x) (map strip lines)))
        (save_repository_settings_content rd False disable enable lines)
     = filter (\<lambda>x. \<not> repo_line_like x) (map strip lines)
   \<and> (\<forall>x \<in> set (save_repository_settings_content rd False disable enable lines).
        \<not> repo_line_like x \<or> five_fields x \<or> (\<not> disable \<and> \<not> enable \<and> x = repository_line rd))
   \<and> save_repository_settings_content rd True False False lines
     = filter (\<lambda>x. \<not> startswith x (''repository|'' @ repoid rd) \<and>
                   \<not> single_comment_with (''repository|'' @ repoid rd) x) (map strip lines)"
proof (intro conjI ballI)
  show "filter (\<lambda>x. \<not> (startswith x ''repository|'' \<and> five_fields x))
      (write_ordered_repositories_entries_content ord lines)
     = filter (\<lambda>x. \<not> (startswith x ''repository|'' \<and> five_fields x)) (map strip lines)"
    by (rule write_ordered_other_lines)
  show "take (length (filter (\<lambda>x. \<not> repo_line_like x) (map strip lines)))
        (save_repository_settings_content rd False disable enable lines)
     = filter (\<lambda>x. \<not> repo_line_like x) (map strip lines)"
    by (subst save_content_split) simp
  show "save_repository_settings_content rd True False False lines
     = filter (\<lambda>x. \<not> startswith x (''repository|'' @ repoid rd) \<and>
                   \<not> single_comment_with (''repository|'' @ repoid rd) x) (map strip lines)"
    by (simp add: save_repository_settings_content_def removed_entries_def Let_def)
next
  fix x
  assume "x \<in> set (save_repository_settings_content rd False disable enable lines)"
  then consider (kept) "x \<in> set (filter (\<lambda>x. \<not> repo_line_like x) (map strip lines))"
    | (data) cc xid where "(cc, xid, x) \<in> set (new_repolines_data rd disable enable
       (filter five_fields (filter repo_line_like
          (removed_entries rd False disable enable (map strip lines)))))"
    by (subst (asm) save_content_split) auto
  then show "\<not> repo_line_like x \<or> five_fields x \<or> (\<not> disable \<and> \<not> enable \<and> x = repository_line rd)"
  proof cases
    case kept
    then show ?thesis by simp
  next
    case data
    from new_repolines_data_lines [OF data] show ?thesis by simp
  qed
qed

theorem config_rewrite_lines_witness:
  "filter (\<lambda>x. \<not> (startswith x ''repository|'' \<and> five_fields x))
      (write_ordered_repositories_entries_content [''extra'', ''main''] sample_conf)
     = filter (\<lambda>x. \<not> (startswith x ''repository|'' \<and> five_fields x)) (map strip sample_conf)
   \<and> write_ordered_repositories_entries_content [''extra'', ''main''] sample_conf
     = [''# repositories'', ''repository|broken'',
        ''#repository|main|Main|http://a|http://a/db#zip#80,443'', ''branch|5'',
        ''repository|extra|Extra|http://c|http://c/db#zip#80,443'']
   \<and> save_repository_settings_content main_repodata False False True sample_conf
     = [''# repositories'', ''branch|5'',
        ''repository|main|Main|http://a|http://a/db#zip#80,443'',
        ''repository|extra|Extra|http://c|http://c/db#zip#80,443'']
   \<and> five_fields ''repository|main|Main|http://a|http://a/db#zip#80,443''
   \<and> save_repository_settings_content main_repodata True False False sample_conf
     = [''# repositories'', ''repository|broken'',
        ''repository|extra|Extra|http://c|http://c/db#zip#80,443'', ''branch|5'']"
proof -
  note t = config_rewrite_lines [of "[''extra'', ''main'']" sample_conf main_repodata False True]
  have e: "save_repository_settings_content main_repodata False False True sample_conf
     = [''# repositories'', ''branch|5'',
        ''repository|main|Main|http://a|http://a/db#zip#80,443'',
        ''repository|extra|Extra|http://c|http://c/db#zip#80,443'']"
    by code_simp
  have r: "repo_line_like ''repository|main|Main|http://a|http://a/db#zip#80,443''"
    by code_simp
  from t [THEN conjunct2, THEN conjunct2, THEN conjunct1] e r
  have f: "five_fields ''repository|main|Main|http://a|http://a/db#zip#80,443''"
    by simp
  have w: "write_ordered_repositories_entries_content [''extra'', ''main''] sample_conf
     = [''# repositories'', ''repository|broken'',
        ''#repository|main|Main|http://a|http://a/db#zip#80,443'', ''branch|5'',
        ''repository|extra|Extra|http://c|http://c/db#zip#80,443'']"
    by code_simp
  have d: "save_repository_settings_content main_repodata True False False sample_conf
     = [''# repositories'', ''repository|broken'',
        ''repository|extra|Extra|http://c|http://c/db#zip#80,443'', ''branch|5'']"
    by code_simp
  from t [THEN conjunct1] w e f d show ?thesis by blast
qed

text \<open>
  Claim C3 as stated fails: the malformed line \<^verbatim>\<open>repository|broken\<close> of the sample file
  is in none of the files written when the repository \<^verbatim>\<open>main\<close> is enabled, disabled or
  added.
\<close>

theorem malformed_repository_line_dropped:
  "''repository|broken'' \<in> set (map strip sample_conf)
   \<and> startswith ''repository|broken'' ''repository|''
   \<and> \<not> five_fields ''repository|broken''
   \<and> ''repository|broken'' \<notin> set (save_repository_settings_content main_repodata False False True sample_conf)
   \<and> ''repository|broken'' \<notin> set (save_repository_settings_content main_repodata False True False sample_conf)
   \<and> ''repository|broken'' \<notin> set (save_repository_settings_content main_repodata False False False sample_conf)"
  by code_simp

subsection \<open>Classifying a match against the installed packages\<close>

text \<open>
  Claim C1. When the repository of the match opens and the installed-packages repository
  is there: no installed package with the key and slot of the candidate gives 1
  (install); otherwise, with the first such package, a comparison of 0 gives 0
  (reinstall) for equal digests and 2 (upgrade) for different digests, a positive
  comparison gives 2 (upgrade) and a negative one -1 (downgrade).
\<close>

theorem get_package_action_classifies:
  assumes "open_repository env c repo s = (Inr (Some dbconn), s1)"
    and "installed_repository s1 = Some inst"
    and "retrieveKeySlot env dbconn pid = (pkgkey, pkgslot)"
  shows "(searchKeySlot env inst pkgkey pkgslot = [] \<longrightarrow>
            get_package_action env c (pid, repo) s = (Inr 1, s1))
       \<and> (\<forall>i rest. searchKeySlot env inst pkgkey pkgslot = i # rest \<longrightarrow>
            (let pkgcmp = entropy_compare_versions env (getVersioningData env dbconn pid)
                            (getVersioningData env inst i)
             in (pkgcmp = 0 \<and> retrieveDigest env inst i = retrieveDigest env dbconn pid \<longrightarrow>
                   get_package_action env c (pid, repo) s = (Inr 0, s1))
              \<and> (pkgcmp = 0 \<and> retrieveDigest env inst i \<noteq> retrieveDigest env dbconn pid \<longrightarrow>
                   get_package_action env c (pid, repo) s = (Inr 2, s1))
              \<and> (pkgcmp > 0 \<longrightarrow> get_package_action env c (pid, repo) s = (Inr 2, s1))
              \<and> (pkgcmp < 0 \<longrightarrow> get_package_action env c (pid, repo) s = (Inr (- 1), s1))))"
  using assms by (simp add: get_package_action_def Let_def)


theorem get_package_action_classifies_witness:
  "get_package_action demo_env demo_const (42, ''main'') demo_client = (Inr 2, demo_client)"
proof -
  have o: "open_repository demo_env demo_const ''main'' demo_client = (Inr (Some main_db), demo_client)"
    by (simp add: open_repository_def demo_const_def demo_client_def)
  have i: "installed_repository demo_client = Some client_db"
    by (simp add: demo_client_def)
  have k: "retrieveKeySlot demo_env main_db 42 = (''app-misc/foo'', ''0'')"
    by (simp add: demo_env_def)
  note t = get_package_action_classifies [OF o i k]
  have r: "searchKeySlot demo_env client_db ''app-misc/foo'' ''0'' = [7]"
    by (simp add: demo_env_def)
  have cmp: "entropy_compare_versions demo_env (getVersioningData demo_env main_db 42)
      (getVersioningData demo_env client_db 7) = 1"
    by (simp add: demo_env_def main_db_def client_db_def)
  from t r cmp show ?thesis by (simp add: Let_def)
qed

subsection \<open>Closing repositories\<close>

lemma close_cached_memory [simp]:
  "memory_db_instances (close_cached env items s) = memory_db_instances s"
  by (induction items arbitrary: s) (auto simp: Let_def split: option.splits)

lemma close_cached_calls:
  assumes "distinct items"
  shows "closeDB_calls (close_cached env items s) = closeDB_calls s @
     concat (map (\<lambda>k. if map_of (memory_db_instances s) k = None
                         then (case map_of (repodb_cache s) k of None \<Rightarrow> [] | Some h \<Rightarrow> [h])
                         else []) items)"
  using assms
proof (induction items arbitrary: s)
  case Nil
  then show ?case by simp
next
  case (Cons item items)
  from Cons.prems have d: "distinct items" and n: "item \<notin> set items" by auto
  show ?case
  proof (cases "map_of (memory_db_instances s) item \<noteq> None")
    case True
    then show ?thesis using Cons.IH [OF d, of s] by auto
  next
    case mem: False
    show ?thesis
    proof (cases "map_of (repodb_cache s) item")
      case None
      with mem show ?thesis using Cons.IH [OF d, of s] by auto
    next
      case (Some h)
      let ?s1 = "s\<lparr>repodb_cache := AList.delete item (repodb_cache s),
                        closeDB_calls := closeDB_calls s @ [h]\<rparr>"
      let ?s2 = "case closeDB_error env h of None \<Rightarrow> ?s1
                 | Some err \<Rightarrow> ?s1\<lparr>stderr := stderr ?s1 @
                      [''!!! Cannot close Entropy repos: '' @ err @ [CHR 0x0A]]\<rparr>"
      have c: "closeDB_calls ?s2 = closeDB_calls s @ [h]" by (simp split: option.splits)
      have m: "memory_db_instances ?s2 = memory_db_instances s" by (simp split: option.splits)
      have r: "repodb_cache ?s2 = AList.delete item (repodb_cache s)" by (simp split: option.splits)
      have same: "map (\<lambda>k. if map_of (memory_db_instances ?s2) k = None
                         then (case map_of (repodb_cache ?s2) k of None \<Rightarrow> [] | Some h \<Rightarrow> [h])
                         else []) items
          = map (\<lambda>k. if map_of (memory_db_instances s) k = None
                         then (case map_of (repodb_cache s) k of None \<Rightarrow> [] | Some h \<Rightarrow> [h])
                         else []) items"
        using n unfolding m r by (intro map_cong) (auto simp: delete_conv')
      have "close_cached env (item # items) s = close_cached env items ?s2"
        using mem Some by (simp add: Let_def)
      then show ?thesis using Cons.IH [OF d, of ?s2] mem Some unfolding same c by simp
    qed
  qed
qed

lemma dict_keys_map_of: "k \<in> set (dict_keys d) \<Longrightarrow> \<exists>v. map_of d k = Some v"
  by (simp add: dict_keys_def) (metis map_of_eq_None_iff not_Some_eq image_set)

lemma durable_cached_concat:
  "concat (map (\<lambda>k. if map_of (memory_db_instances s) k = None
                      then (case map_of (repodb_cache s) k of None \<Rightarrow> [] | Some h \<Rightarrow> [h])
                      else []) (sort (dict_keys (repodb_cache s)))) = durable_cached s"
proof -
  have "concat (map (\<lambda>k. if map_of (memory_db_instances s) k = None
                      then (case map_of (repodb_cache s) k of None \<Rightarrow> [] | Some h \<Rightarrow> [h])
                      else []) ks)
      = map (\<lambda>k. the (map_of (repodb_cache s) k))
          (filter (\<lambda>k. map_of (memory_db_instances s) k = None) ks)"
    if "set ks \<subseteq> set (dict_keys (repodb_cache s))" for ks
    using that
  proof (induction ks)
    case Nil
    then show ?case by simp
  next
    case (Cons k ks)
    then obtain v where "map_of (repodb_cache s) k = Some v" using dict_keys_map_of [of k] by auto
    with Cons show ?case by simp
  qed
  from this [of "sort (dict_keys (repodb_cache s))"] show ?thesis by (simp add: durable_cached_def)
qed

lemma close_all_calls:
  "closeDB_calls (close_all_repositories env mc s) = closeDB_calls s @ durable_cached s"
proof -
  have "distinct (sort (dict_keys (repodb_cache s)))" by (simp add: dict_keys_def)
  from close_cached_calls [OF this, of env s] show ?thesis
    unfolding durable_cached_concat by (simp add: close_all_repositories_def Let_def)
qed

lemma close_all_memory [simp]:
  "memory_db_instances (close_all_repositories env mc s) = memory_db_instances s"
  by (simp add: close_all_repositories_def Let_def)

lemma close_all_cache [simp]: "repodb_cache (close_all_repositories env mc s) = []"
  by (simp add: close_all_repositories_def Let_def)

lemma set_durable_cached:
  "set (durable_cached s) =
     {h. \<exists>k. map_of (repodb_cache s) k = Some h \<and> map_of (memory_db_instances s) k = None}"
proof (intro set_eqI iffI)
  fix h assume "h \<in> set (durable_cached s)"
  then obtain k where k: "k \<in> set (dict_keys (repodb_cache s))"
    "map_of (memory_db_instances s) k = None" "h = the (map_of (repodb_cache s) k)"
    by (auto simp: durable_cached_def)
  with dict_keys_map_of [OF k(1)] have "map_of (repodb_cache s) k = Some h" by auto
  with k(2) show "h \<in> {h. \<exists>k. map_of (repodb_cache s) k = Some h \<and>
      map_of (memory_db_instances s) k = None}" by blast
next
  fix h assume "h \<in> {h. \<exists>k. map_of (repodb_cache s) k = Some h \<and>
      map_of (memory_db_instances s) k = None}"
  then obtain k where k: "map_of (repodb_cache s) k = Some h" "map_of (memory_db_instances s) k = None"
    by auto
  from k(1) have "k \<in> set (dict_keys (repodb_cache s))"
    by (auto simp: dict_keys_def dest: map_of_SomeD intro: rev_image_eqI)
  with k show "h \<in> set (durable_cached s)"
    by (force simp: durable_cached_def)
qed


lemma same_core_refl [simp]: "same_core s s"
  by (simp add: same_core_def)

lemma same_core_trans: "same_core s s1 \<Longrightarrow> same_core s1 s2 \<Longrightarrow> same_core s s2"
  by (simp add: same_core_def)

lemma same_core_warn_once [simp]: "same_core s (warn_once rid t s)"
  by (simp add: same_core_def warn_once_def emit_def)

lemma same_core_load:
  "load_repository_database env c rid s = (x, s') \<Longrightarrow> same_core s s'"
  by (auto simp: load_repository_database_def Let_def split: option.splits if_splits)

lemma same_core_open:
  "open_repository env c rid s = (x, s') \<Longrightarrow> same_core s s'"
proof -
  assume a: "open_repository env c rid s = (x, s')"
  obtain y s1 where l: "load_repository_database env c rid s = (y, s1)" by force
  from same_core_load [OF l] have "same_core s s1" .
  with a l show ?thesis
    by (auto simp: open_repository_def Let_def same_core_def
        split: option.splits if_splits sum.splits)
qed

lemma same_core_validate_except:
  "validate_except quiet rid e s = (x, s') \<Longrightarrow> same_core s s'"
  by (cases e) (auto simp: validate_except_def same_core_def emit_def split: if_splits)

lemma same_core_validate_one:
  assumes "validate_one env c quiet rid s = (x, s')"
  shows "same_core s s'"
proof -
  obtain y s1 where o: "open_repository env c rid s = (y, s1)" by force
  from same_core_open [OF o] have 1: "same_core s s1" .
  have "same_core s1 s'"
    using assms o same_core_validate_except [of quiet rid _ s1 x s']
    by (auto simp: validate_one_def same_core_def split: sum.splits option.splits)
  with 1 show ?thesis by (rule same_core_trans)
qed

lemma same_core_validate_loop:
  "validate_loop env c quiet rids s = (x, s') \<Longrightarrow> same_core s s'"
proof (induction rids arbitrary: s)
  case Nil
  then show ?case by simp
next
  case (Cons rid rids)
  obtain y s1 where v: "validate_one env c quiet rid s = (y, s1)" by force
  from same_core_validate_one [OF v] have 1: "same_core s s1" .
  show ?case
  proof (cases y)
    case None
    with Cons.prems v have "validate_loop env c quiet rids s1 = (x, s')" by simp
    from Cons.IH [OF this] 1 show ?thesis by (rule same_core_trans [rotated])
  next
    case (Some e)
    with Cons.prems v 1 show ?thesis by simp
  qed
qed

lemma validate_repositories_memory:
  "memory_db_instances (snd (validate_repositories env c quiet s)) = memory_db_instances s"
proof -
  let ?s0 = "s\<lparr>repo_error_messages_cache := {}, enabled_repos := []\<rparr>"
  obtain x s1 where l: "validate_loop env c quiet (order (SystemSettings ?s0)) ?s0 = (x, s1)"
    by force
  from same_core_validate_loop [OF l] have "memory_db_instances s1 = memory_db_instances s"
    by (simp add: same_core_def)
  with l show ?thesis
    by (cases x) (simp_all add: validate_repositories_def Let_def)
qed

lemma validate_repositories_calls:
  "set (closeDB_calls s) \<subseteq> set (closeDB_calls (snd (validate_repositories env c quiet s)))"
proof -
  let ?s0 = "s\<lparr>repo_error_messages_cache := {}, enabled_repos := []\<rparr>"
  obtain x s1 where l: "validate_loop env c quiet (order (SystemSettings ?s0)) ?s0 = (x, s1)"
    by force
  from same_core_validate_loop [OF l] have "closeDB_calls s1 = closeDB_calls s"
    by (simp add: same_core_def)
  with l show ?thesis
    by (cases x) (auto simp: validate_repositories_def Let_def close_all_calls)
qed

lemma remove_repository_memory:
  "map_of (memory_db_instances (snd (remove_repository env c rid disable s))) =
     (map_of (memory_db_instances s))((rid, systemroot c) := None)"
  by (simp add: remove_repository_def Let_def validate_repositories_memory delete_conv'
      split: option.splits)

lemma remove_repository_closes:
  assumes "map_of (memory_db_instances s) (rid, systemroot c) = Some h"
  shows "h \<in> set (closeDB_calls (snd (remove_repository env c rid disable s)))"
proof -
  have sub: "h \<in> set (closeDB_calls s5) \<Longrightarrow>
      h \<in> set (closeDB_calls (snd (validate_repositories env c False
            (close_all_repositories env True s5))))" for s5
    using validate_repositories_calls [of "close_all_repositories env True s5" env c False]
    by (auto simp: close_all_calls)
  show ?thesis
    using assms by (auto simp: remove_repository_def Let_def intro!: sub)
qed

text \<open>
  Claim C2. \<^verbatim>\<open>close_all_repositories\<close> leaves \<^verbatim>\<open>_memory_db_instances\<close> as it is,
  empties the cache, and calls \<^verbatim>\<open>closeDB()\<close> on exactly the handles cached under keys
  that are not keys of in-memory repositories; when no in-memory instance is also cached
  under such a key, no in-memory instance is closed. \<^verbatim>\<open>remove_repository\<close> takes the
  in-memory instance of its repository out of \<^verbatim>\<open>_memory_db_instances\<close> (and no other)
  and calls \<^verbatim>\<open>closeDB()\<close> on it.
\<close>

theorem close_all_keeps_memory_repositories:
  "memory_db_instances (close_all_repositories env mc s) = memory_db_instances s
   \<and> repodb_cache (close_all_repositories env mc s) = []
   \<and> closeDB_calls (close_all_repositories env mc s) = closeDB_calls s @ durable_cached s
   \<and> set (durable_cached s) =
       {h. \<exists>k. map_of (repodb_cache s) k = Some h \<and> map_of (memory_db_instances s) k = None}
   \<and> ((\<forall>k k' h. map_of (memory_db_instances s) k = Some h \<and> map_of (repodb_cache s) k' = Some h
          \<longrightarrow> map_of (memory_db_instances s) k' \<noteq> None)
        \<longrightarrow> (\<forall>h \<in> ran (map_of (memory_db_instances s)). h \<notin> set (durable_cached s)))
   \<and> map_of (memory_db_instances (snd (remove_repository env c rid disable s))) =
       (map_of (memory_db_instances s))((rid, systemroot c) := None)
   \<and> (\<forall>h. map_of (memory_db_instances s) (rid, systemroot c) = Some h \<longrightarrow>
          h \<in> set (closeDB_calls (snd (remove_repository env c rid disable s))))"
proof (intro conjI)
  show "(\<forall>k k' h. map_of (memory_db_instances s) k = Some h \<and> map_of (repodb_cache s) k' = Some h
          \<longrightarrow> map_of (memory_db_instances s) k' \<noteq> None)
        \<longrightarrow> (\<forall>h \<in> ran (map_of (memory_db_instances s)). h \<notin> set (durable_cached s))"
    unfolding set_durable_cached by (auto simp: ran_def)
qed (simp_all add: close_all_calls set_durable_cached remove_repository_memory remove_repository_closes)


theorem close_all_keeps_memory_repositories_witness:
  "closeDB_calls (close_all_repositories demo_env True demo_client) = [main_db]
   \<and> memory_db_instances (close_all_repositories demo_env True demo_client) = [((''mem'', []), mem_db)]
   \<and> repodb_cache (close_all_repositories demo_env True demo_client) = []
   \<and> mem_db \<notin> set (durable_cached demo_client)
   \<and> map_of (memory_db_instances (snd (remove_repository demo_env demo_const ''mem'' False demo_client)))
        (''mem'', []) = None
   \<and> mem_db \<in> set (closeDB_calls (snd (remove_repository demo_env demo_const ''mem'' False demo_client)))"
proof -
  note t = close_all_keeps_memory_repositories [of demo_env True demo_client demo_const "''mem''" False]
  have d: "durable_cached demo_client = [main_db]" by code_simp
  have c0: "closeDB_calls demo_client = []" by (simp add: demo_client_def)
  have m0: "memory_db_instances demo_client = [((''mem'', []), mem_db)]" by (simp add: demo_client_def)
  have r0: "systemroot demo_const = []" by (simp add: demo_const_def)
  have na: "\<forall>k k' h. map_of (memory_db_instances demo_client) k = Some h \<and>
        map_of (repodb_cache demo_client) k' = Some h
          \<longrightarrow> map_of (memory_db_instances demo_client) k' \<noteq> None"
    by (auto simp: demo_client_def main_db_def mem_db_def split: if_splits)
  have 1: "closeDB_calls (close_all_repositories demo_env True demo_client) = [main_db]"
    using t [THEN conjunct2, THEN conjunct2, THEN conjunct1] by (simp add: d c0)
  have 2: "memory_db_instances (close_all_repositories demo_env True demo_client) = [((''mem'', []), mem_db)]"
    using t [THEN conjunct1] by (simp add: m0)
  have 3: "repodb_cache (close_all_repositories demo_env True demo_client) = []"
    by (rule t [THEN conjunct2, THEN conjunct1])
  have 4: "mem_db \<notin> set (durable_cached demo_client)"
    using t [THEN conjunct2, THEN conjunct2, THEN conjunct2, THEN conjunct2, THEN conjunct1] na
    by (simp add: m0 ran_def)
  have 5: "map_of (memory_db_instances (snd (remove_repository demo_env demo_const ''mem'' False demo_client)))
        (''mem'', []) = None"
    using t [THEN conjunct2, THEN conjunct2, THEN conjunct2, THEN conjunct2, THEN conjunct2, THEN conjunct1]
    by (simp add: r0)
  have 6: "mem_db \<in> set (closeDB_calls (snd (remove_repository demo_env demo_const ''mem'' False demo_client)))"
    using t [THEN conjunct2, THEN conjunct2, THEN conjunct2, THEN conjunct2, THEN conjunct2, THEN conjunct2]
    by (simp add: r0 m0)
  from 1 2 3 4 5 6 show ?thesis by blast
qed

subsection \<open>Validating repositories\<close>

lemma fst_load_same:
  assumes "SystemSettings s' = SystemSettings s" "memory_db_instances s' = memory_db_instances s"
  shows "fst (load_repository_database env c rid s') = fst (load_repository_database env c rid s)"
  using assms by (simp add: load_repository_database_def Let_def split: option.splits)

lemma fst_open_eq:
  "fst (open_repository env c rid s) =
     (if rid = clientdbid c then Inr (installed_repository s)
      else case map_of (repodb_cache s) (rid, systemroot c) of
             Some h \<Rightarrow> Inr (Some h)
           | None \<Rightarrow> (case fst (load_repository_database env c rid s) of
                         Inl e \<Rightarrow> Inl e
                       | Inr None \<Rightarrow> Inl AttributeError
                       | Inr (Some h) \<Rightarrow> Inr (Some h)))"
  by (simp add: open_repository_def Let_def split: option.splits prod.splits sum.splits)

lemma cache_open_eq:
  "repodb_cache (snd (open_repository env c rid s)) =
     (if rid = clientdbid c then repodb_cache s
      else case map_of (repodb_cache s) (rid, systemroot c) of
             Some h \<Rightarrow> repodb_cache s
           | None \<Rightarrow> (case fst (load_repository_database env c rid s) of
                         Inr (Some h) \<Rightarrow> AList.update (rid, systemroot c) h (repodb_cache s)
                       | _ \<Rightarrow> repodb_cache s))"
proof -
  obtain y s1 where l: "load_repository_database env c rid s = (y, s1)" by force
  from l have "repodb_cache s1 = repodb_cache s"
    by (auto simp: load_repository_database_def Let_def warn_once_def emit_def
        split: option.splits if_splits)
  with l show ?thesis
    by (simp add: open_repository_def Let_def split: option.splits prod.splits sum.splits)
qed

lemma fst_open_stable:
  assumes "s1 = snd (open_repository env c rid' s)"
  shows "fst (open_repository env c rid s1) = fst (open_repository env c rid s)"
proof -
  obtain x where o: "open_repository env c rid' s = (x, s1)" using assms by (metis prod.collapse)
  from same_core_open [OF o] have sc: "SystemSettings s1 = SystemSettings s"
    "memory_db_instances s1 = memory_db_instances s" "installed_repository s1 = installed_repository s"
    by (simp_all add: same_core_def)
  have l: "fst (load_repository_database env c r s1) = fst (load_repository_database env c r s)" for r
    by (rule fst_load_same [OF sc(1,2)])
  have ch: "repodb_cache s1 = repodb_cache (snd (open_repository env c rid' s))" using assms by simp
  show ?thesis
    unfolding fst_open_eq [of env c rid s1] fst_open_eq [of env c rid s] l sc ch cache_open_eq
    by (auto simp: update_conv' split: option.splits sum.splits)
qed


lemma fst_open_cong:
  assumes "repodb_cache s' = repodb_cache s" "SystemSettings s' = SystemSettings s"
    "memory_db_instances s' = memory_db_instances s" "installed_repository s' = installed_repository s"
  shows "fst (open_repository env c rid s') = fst (open_repository env c rid s)"
  unfolding fst_open_eq fst_load_same [OF assms(2,3)] assms by simp

lemma validation_outcome_cong:
  assumes "repodb_cache s' = repodb_cache s" "SystemSettings s' = SystemSettings s"
    "memory_db_instances s' = memory_db_instances s" "installed_repository s' = installed_repository s"
  shows "validation_outcome env c s' rid = validation_outcome env c s rid"
  unfolding validation_outcome_def fst_open_cong [OF assms] by simp

lemma validate_one_eq:
  "validate_one env c quiet rid s =
     (case validation_outcome env c s rid of
        None \<Rightarrow> (None, (snd (open_repository env c rid s))
                   \<lparr>enabled_repos := enabled_repos (snd (open_repository env c rid s)) @ [rid]\<rparr>)
      | Some e \<Rightarrow> (if e = AttributeError \<and> fst (open_repository env c rid s) = Inr None
                   then (Some AttributeError, snd (open_repository env c rid s))
                   else validate_except quiet rid e (snd (open_repository env c rid s))))"
  by (auto simp: validate_one_def validation_outcome_def validate_except_def
      split: prod.splits sum.splits option.splits exc.splits)

lemma validate_except_fields:
  "repodb_cache (snd (validate_except quiet rid e s)) = repodb_cache s"
  "enabled_repos (snd (validate_except quiet rid e s)) = enabled_repos s"
  "SystemSettings (snd (validate_except quiet rid e s)) = SystemSettings s"
  "memory_db_instances (snd (validate_except quiet rid e s)) = memory_db_instances s"
  "installed_repository (snd (validate_except quiet rid e s)) = installed_repository s"
  by (cases e; simp add: validate_except_def emit_def)+

lemma validate_one_outcome_stable:
  "validation_outcome env c (snd (validate_one env c quiet rid' s)) rid
     = validation_outcome env c s rid"
proof -
  let ?s1 = "snd (open_repository env c rid' s)"
  have 1: "validation_outcome env c ?s1 rid = validation_outcome env c s rid"
    unfolding validation_outcome_def fst_open_stable [OF refl] by simp
  have sc: "same_core s ?s1" by (rule same_core_open [of env c rid' s "fst (open_repository env c rid' s)"]) simp
  have "validation_outcome env c (snd (validate_one env c quiet rid' s)) rid
      = validation_outcome env c ?s1 rid"
    by (rule validation_outcome_cong)
       (auto simp: validate_one_eq validate_except_fields split: option.splits)
  with 1 show ?thesis by simp
qed

lemma enabled_open [simp]:
  "enabled_repos (snd (open_repository env c rid s)) = enabled_repos s"
  by (auto simp: open_repository_def load_repository_database_def Let_def warn_once_def emit_def
      split: option.splits sum.splits prod.splits)

lemma validate_one_enabled:
  "enabled_repos (snd (validate_one env c quiet rid s)) =
     enabled_repos s @ (if validation_outcome env c s rid = None then [rid] else [])"
  by (auto simp: validate_one_eq validate_except_fields split: option.splits)

lemma validate_loop_enabled:
  "set (enabled_repos (snd (validate_loop env c quiet rids s))) \<subseteq>
     set (enabled_repos s) \<union> {r \<in> set rids. validation_outcome env c s r = None}
   \<and> (fst (validate_loop env c quiet rids s) = None \<longrightarrow>
        enabled_repos (snd (validate_loop env c quiet rids s)) =
          enabled_repos s @ filter (\<lambda>r. validation_outcome env c s r = None) rids)"
proof (induction rids arbitrary: s)
  case Nil
  then show ?case by simp
next
  case (Cons rid rids)
  obtain y s1 where v: "validate_one env c quiet rid s = (y, s1)" by force
  then have s1: "s1 = snd (validate_one env c quiet rid s)" by simp
  have st: "validation_outcome env c s1 r = validation_outcome env c s r" for r
    unfolding s1 by (rule validate_one_outcome_stable)
  have en: "enabled_repos s1 = enabled_repos s @ (if validation_outcome env c s rid = None then [rid] else [])"
    unfolding s1 by (rule validate_one_enabled)
  show ?case
  proof (cases y)
    case None
    with v have "validate_loop env c quiet (rid # rids) s = validate_loop env c quiet rids s1" by simp
    then show ?thesis using Cons.IH [of s1] unfolding st en by auto
  next
    case (Some e)
    with v have "validate_loop env c quiet (rid # rids) s = (Some e, s1)" by simp
    then show ?thesis using en by auto
  qed
qed


lemma open_outputs:
  "\<exists>pre. outputs (snd (open_repository env c rid s)) = outputs s @ pre \<and>
     (pre = [] \<or> (\<exists>w. pre = [w] \<and> loader_warning rid w))"
  by (auto simp: open_repository_def load_repository_database_def Let_def warn_once_def emit_def
      loader_warning_def split: option.splits sum.splits prod.splits)

lemma validate_except_outputs:
  "outputs (snd (validate_except quiet rid e s)) = outputs s @ validate_messages quiet rid (Some e)"
  by (cases e) (simp_all add: validate_except_def validate_messages_def emit_def
      is_unavailable_def is_corrupted_def)

lemma validate_one_outputs:
  "\<exists>pre. outputs (snd (validate_one env c quiet rid s)) =
       outputs s @ pre @ validate_messages quiet rid (validation_outcome env c s rid) \<and>
     (pre = [] \<or> (\<exists>w. pre = [w] \<and> loader_warning rid w))"
proof -
  from open_outputs [of env c rid s] obtain pre where
    p: "outputs (snd (open_repository env c rid s)) = outputs s @ pre"
       "pre = [] \<or> (\<exists>w. pre = [w] \<and> loader_warning rid w)" by blast
  have "outputs (snd (validate_one env c quiet rid s)) =
       outputs s @ pre @ validate_messages quiet rid (validation_outcome env c s rid)"
    using p(1)
    by (auto simp: validate_one_eq validate_except_outputs split: option.splits)
       (simp_all add: validate_messages_def is_unavailable_def is_corrupted_def)
  with p(2) show ?thesis by blast
qed


lemma msg_unavailable_not_corrupted: "msg_not_available r \<noteq> msg_corrupted r'"
proof
  assume "msg_not_available r = msg_corrupted r'"
  then have "rev (msg_not_available r) = rev (msg_corrupted r')" by simp
  then show False by (simp add: msg_not_available_def msg_corrupted_def)
qed

lemma msg_downloaded_not_validate:
  "msg_not_downloaded r \<noteq> msg_not_available r'" "msg_not_downloaded r \<noteq> msg_corrupted r'"
proof -
  have "rev (msg_not_downloaded r) \<noteq> rev (msg_not_available r')"
    by (simp add: msg_not_available_def msg_not_downloaded_def)
  then show "msg_not_downloaded r \<noteq> msg_not_available r'" by auto
  have "rev (msg_not_downloaded r) \<noteq> rev (msg_corrupted r')"
    by (simp add: msg_corrupted_def msg_not_downloaded_def)
  then show "msg_not_downloaded r \<noteq> msg_corrupted r'" by auto
qed

lemma msg_bad_id_others:
  "msg_bad_id r \<noteq> msg_not_downloaded r'" "msg_bad_id r \<noteq> msg_not_available r'"
  "msg_bad_id r \<noteq> msg_corrupted r'" "msg_bad_id r \<noteq> msg_please_update"
  by (simp_all add: msg_bad_id_def msg_not_downloaded_def msg_not_available_def msg_corrupted_def
      msg_please_update_def)

lemma msg_please_update_others:
  "msg_please_update \<noteq> msg_not_downloaded r" "msg_please_update \<noteq> msg_not_available r"
  "msg_please_update \<noteq> msg_corrupted r"
  by (simp_all add: msg_not_downloaded_def msg_not_available_def msg_corrupted_def
      msg_please_update_def)

lemma msg_inj:
  "msg_bad_id r = msg_bad_id r' \<longleftrightarrow> r = r'"
  "msg_not_downloaded r = msg_not_downloaded r' \<longleftrightarrow> r = r'"
  "msg_not_available r = msg_not_available r' \<longleftrightarrow> r = r'"
  "msg_corrupted r = msg_corrupted r' \<longleftrightarrow> r = r'"
  by (simp_all add: msg_bad_id_def msg_not_downloaded_def msg_not_available_def msg_corrupted_def)

lemmas msg_distinct = msg_unavailable_not_corrupted msg_unavailable_not_corrupted [symmetric]
  msg_downloaded_not_validate msg_downloaded_not_validate [symmetric]
  msg_bad_id_others msg_bad_id_others [symmetric]
  msg_please_update_others msg_please_update_others [symmetric] msg_inj

lemma text_owner:
  assumes "t \<in> {msg_bad_id r, msg_not_downloaded r, msg_not_available r, msg_corrupted r}"
    and "t \<in> {msg_bad_id r', msg_not_downloaded r', msg_not_available r', msg_corrupted r'}"
  shows "r = r'"
  using assms by (auto simp: msg_distinct)


lemma msg_owner_texts:
  assumes "loader_warning r m \<or> m \<in> set (validate_messages quiet r oc)"
  shows "msg_text m \<in> {msg_bad_id r, msg_not_downloaded r, msg_not_available r, msg_corrupted r,
           msg_please_update}"
  using assms
  by (auto simp: loader_warning_def validate_messages_def mk_output_def split: if_splits)

lemma step_texts_distinct:
  assumes "pre = [] \<or> (\<exists>w. pre = [w] \<and> loader_warning rid w)"
  shows "distinct (filter (\<lambda>t. t \<noteq> msg_please_update)
           (map msg_text (pre @ validate_messages quiet rid oc)))"
  using assms
  by (auto simp: loader_warning_def validate_messages_def mk_output_def msg_distinct)

lemma validate_loop_outputs:
  "\<exists>ms. outputs (snd (validate_loop env c quiet rids s)) = outputs s @ ms
     \<and> (\<forall>m \<in> set ms. \<exists>r \<in> set rids. loader_warning r m \<or>
            m \<in> set (validate_messages quiet r (validation_outcome env c s r)))
     \<and> (distinct rids \<longrightarrow> distinct (filter (\<lambda>t. t \<noteq> msg_please_update) (map msg_text ms)))
     \<and> (fst (validate_loop env c quiet rids s) = None \<longrightarrow>
          (\<forall>r \<in> set rids. set (validate_messages quiet r (validation_outcome env c s r)) \<subseteq> set ms))"
proof (induction rids arbitrary: s)
  case Nil
  show ?case by simp
next
  case (Cons rid rids)
  obtain y s1 where v: "validate_one env c quiet rid s = (y, s1)" by force
  then have s1: "s1 = snd (validate_one env c quiet rid s)" by simp
  have st: "validation_outcome env c s1 r = validation_outcome env c s r" for r
    unfolding s1 by (rule validate_one_outcome_stable)
  let ?vm = "validate_messages quiet rid (validation_outcome env c s rid)"
  from validate_one_outputs [of env c quiet rid s] obtain pre where
    o1: "outputs s1 = outputs s @ pre @ ?vm"
    and pre: "pre = [] \<or> (\<exists>w. pre = [w] \<and> loader_warning rid w)"
    unfolding s1 by blast
  have own1: "\<forall>m \<in> set (pre @ ?vm). loader_warning rid m \<or> m \<in> set ?vm"
    using pre by auto
  have d1: "distinct (filter (\<lambda>t. t \<noteq> msg_please_update) (map msg_text (pre @ ?vm)))"
    by (rule step_texts_distinct [OF pre])
  show ?case
  proof (cases y)
    case (Some e)
    with v have l: "validate_loop env c quiet (rid # rids) s = (Some e, s1)" by simp
    show ?thesis
      unfolding l using o1 own1 d1 by (intro exI [of _ "pre @ ?vm"]) auto
  next
    case None
    with v have l: "validate_loop env c quiet (rid # rids) s = validate_loop env c quiet rids s1"
      by simp
    from Cons.IH [of s1] obtain ms where
      o2: "outputs (snd (validate_loop env c quiet rids s1)) = outputs s1 @ ms"
      and own2: "\<forall>m \<in> set ms. \<exists>r \<in> set rids. loader_warning r m \<or>
            m \<in> set (validate_messages quiet r (validation_outcome env c s r))"
      and d2: "distinct rids \<longrightarrow> distinct (filter (\<lambda>t. t \<noteq> msg_please_update) (map msg_text ms))"
      and all2: "fst (validate_loop env c quiet rids s1) = None \<longrightarrow>
          (\<forall>r \<in> set rids. set (validate_messages quiet r (validation_outcome env c s r)) \<subseteq> set ms)"
      unfolding st by (elim exE conjE) (rule that)
    have disj: "set (filter (\<lambda>t. t \<noteq> msg_please_update) (map msg_text (pre @ ?vm))) \<inter>
        set (filter (\<lambda>t. t \<noteq> msg_please_update) (map msg_text ms)) = {}" if "rid \<notin> set rids"
    proof -
      have F: False if t: "t \<noteq> msg_please_update" "m \<in> set (pre @ ?vm)" "msg_text m = t"
        "m' \<in> set ms" "msg_text m' = t" for t m m'
      proof -
        from own1 t(2) have "loader_warning rid m \<or> m \<in> set ?vm" by blast
        from msg_owner_texts [OF this] t(1,3)
        have a: "t \<in> {msg_bad_id rid, msg_not_downloaded rid, msg_not_available rid, msg_corrupted rid}"
          by auto
        from own2 t(4) obtain r where r: "r \<in> set rids" "loader_warning r m' \<or>
              m' \<in> set (validate_messages quiet r (validation_outcome env c s r))" by blast
        from msg_owner_texts [OF r(2)] t(1,5)
        have b: "t \<in> {msg_bad_id r, msg_not_downloaded r, msg_not_available r, msg_corrupted r}"
          by auto
        from text_owner [OF a b] r(1) \<open>rid \<notin> set rids\<close> show False by simp
      qed
      show ?thesis
      proof (rule equals0I)
        fix t
        assume "t \<in> set (filter (\<lambda>t. t \<noteq> msg_please_update) (map msg_text (pre @ ?vm))) \<inter>
          set (filter (\<lambda>t. t \<noteq> msg_please_update) (map msg_text ms))"
        then have 1: "t \<noteq> msg_please_update" and 2: "t \<in> msg_text ` set (pre @ ?vm)"
          and 3: "t \<in> msg_text ` set ms" by auto
        from 2 obtain m where m: "m \<in> set (pre @ ?vm)" "msg_text m = t" by (elim imageE) simp
        from 3 obtain m' where m': "m' \<in> set ms" "msg_text m' = t" by (elim imageE) simp
        from F [OF 1 m m'] show False .
      qed
    qed
    show ?thesis
    proof (intro exI [of _ "(pre @ ?vm) @ ms"] conjI)
      show "outputs (snd (validate_loop env c quiet (rid # rids) s)) = outputs s @ (pre @ ?vm) @ ms"
        unfolding l o2 o1 by simp
      show "\<forall>m \<in> set ((pre @ ?vm) @ ms). \<exists>r \<in> set (rid # rids). loader_warning r m \<or>
            m \<in> set (validate_messages quiet r (validation_outcome env c s r))"
        using own1 own2 by (auto simp del: append_assoc)
      show "distinct (rid # rids) \<longrightarrow>
          distinct (filter (\<lambda>t. t \<noteq> msg_please_update) (map msg_text ((pre @ ?vm) @ ms)))"
        using d1 d2 disj by (simp del: append_assoc)
      show "fst (validate_loop env c quiet (rid # rids) s) = None \<longrightarrow>
          (\<forall>r \<in> set (rid # rids).
             set (validate_messages quiet r (validation_outcome env c s r)) \<subseteq> set ((pre @ ?vm) @ ms))"
        unfolding l using all2 by auto
    qed
  qed
qed


lemma close_cached_outputs [simp]:
  "outputs (close_cached env items s) = outputs s"
  "enabled_repos (close_cached env items s) = enabled_repos s"
  by (induction items arbitrary: s; auto simp: Let_def split: option.splits)+

lemma close_all_outputs [simp]:
  "outputs (close_all_repositories env mc s) = outputs s"
  "enabled_repos (close_all_repositories env mc s) = enabled_repos s"
  by (simp_all add: close_all_repositories_def Let_def)

lemma validate_repositories_unfold:
  "fst (validate_repositories env c quiet s) =
     fst (validate_loop env c quiet (order (SystemSettings s))
            (s\<lparr>repo_error_messages_cache := {}, enabled_repos := []\<rparr>))"
  "outputs (snd (validate_repositories env c quiet s)) =
     outputs (snd (validate_loop env c quiet (order (SystemSettings s))
            (s\<lparr>repo_error_messages_cache := {}, enabled_repos := []\<rparr>)))"
  "enabled_repos (snd (validate_repositories env c quiet s)) =
     enabled_repos (snd (validate_loop env c quiet (order (SystemSettings s))
            (s\<lparr>repo_error_messages_cache := {}, enabled_repos := []\<rparr>)))"
  by (auto simp: validate_repositories_def Let_def split: prod.splits option.splits)

lemma validation_outcome_cleared [simp]:
  "validation_outcome env c (s\<lparr>repo_error_messages_cache := {}, enabled_repos := []\<rparr>) rid
     = validation_outcome env c s rid"
  by (rule validation_outcome_cong) simp_all

lemma validate_repositories_enabled:
  "set (enabled_repos (snd (validate_repositories env c quiet s))) \<subseteq>
     {r \<in> set (order (SystemSettings s)). validation_outcome env c s r = None}
   \<and> (fst (validate_repositories env c quiet s) = None \<longrightarrow>
        enabled_repos (snd (validate_repositories env c quiet s)) =
          filter (\<lambda>r. validation_outcome env c s r = None) (order (SystemSettings s)))"
  unfolding validate_repositories_unfold
  using validate_loop_enabled [of env c quiet "order (SystemSettings s)"
      "s\<lparr>repo_error_messages_cache := {}, enabled_repos := []\<rparr>"]
  by simp

lemma validate_repositories_outputs:
  "(\<forall>m \<in> set (validate_outputs env c quiet s). \<exists>r \<in> set (order (SystemSettings s)).
       loader_warning r m \<or> m \<in> set (validate_messages quiet r (validation_outcome env c s r)))
   \<and> (distinct (order (SystemSettings s)) \<longrightarrow>
        distinct (filter (\<lambda>t. t \<noteq> msg_please_update)
          (map msg_text (validate_outputs env c quiet s))))
   \<and> (fst (validate_repositories env c quiet s) = None \<longrightarrow>
        (\<forall>r \<in> set (order (SystemSettings s)).
           set (validate_messages quiet r (validation_outcome env c s r))
             \<subseteq> set (validate_outputs env c quiet s)))"
proof -
  let ?s0 = "s\<lparr>repo_error_messages_cache := {}, enabled_repos := []\<rparr>"
  note L = validate_loop_outputs [of env c quiet "order (SystemSettings s)" ?s0, simplified]
  from L obtain ms where ms: "outputs (snd (validate_loop env c quiet (order (SystemSettings s)) ?s0))
        = outputs s @ ms"
    and r1: "\<forall>m \<in> set ms. \<exists>r \<in> set (order (SystemSettings s)). loader_warning r m \<or>
            m \<in> set (validate_messages quiet r (validation_outcome env c s r))"
    and r2: "distinct (order (SystemSettings s)) \<longrightarrow>
          distinct (filter (\<lambda>t. t \<noteq> msg_please_update) (map msg_text ms))"
    and r3: "fst (validate_loop env c quiet (order (SystemSettings s)) ?s0) = None \<longrightarrow>
          (\<forall>r \<in> set (order (SystemSettings s)).
             set (validate_messages quiet r (validation_outcome env c s r)) \<subseteq> set ms)"
    by (elim exE conjE) (rule that; assumption)
  note rest = conjI [OF r1 conjI [OF r2 r3]]
  have "validate_outputs env c quiet s = ms"
    by (simp add: validate_outputs_def validate_repositories_unfold ms)
  with rest show ?thesis by (simp add: validate_repositories_unfold)
qed

text \<open>
  Claim C7, as the code has it. An id whose database cannot be opened or fails the
  structural checks is not in the list of enabled repositories (which, when the call
  returns, holds exactly the ids that pass, in priority order). The diagnostics of the
  two classes of failure differ, and unless \<^verbatim>\<open>quiet\<close> each failing id gets the one of its
  class. When the priority list has no id twice, every message other than the hint to
  update is printed at most once. With \<^verbatim>\<open>quiet\<close> the call prints none of its own
  diagnostics; the warnings of \<^verbatim>\<open>load_repository_database\<close> are still printed.
\<close>

theorem validate_repositories_diagnostics:
  "(validation_outcome env c s rid \<noteq> None \<longrightarrow>
      rid \<notin> set (enabled_repos (snd (validate_repositories env c quiet s))))
   \<and> (fst (validate_repositories env c quiet s) = None \<longrightarrow>
        enabled_repos (snd (validate_repositories env c quiet s)) =
          filter (\<lambda>r. validation_outcome env c s r = None) (order (SystemSettings s)))
   \<and> msg_not_available rid \<noteq> msg_corrupted rid'
   \<and> (fst (validate_repositories env c quiet s) = None \<and> rid \<in> set (order (SystemSettings s)) \<longrightarrow>
        set (validate_messages quiet rid (validation_outcome env c s rid))
          \<subseteq> set (validate_outputs env c quiet s))
   \<and> (distinct (order (SystemSettings s)) \<longrightarrow>
        distinct (filter (\<lambda>t. t \<noteq> msg_please_update)
          (map msg_text (validate_outputs env c quiet s))))
   \<and> (quiet \<longrightarrow> (\<forall>m \<in> set (validate_outputs env c quiet s).
          \<exists>r \<in> set (order (SystemSettings s)). loader_warning r m))"
proof (intro conjI)
  show "validation_outcome env c s rid \<noteq> None \<longrightarrow>
      rid \<notin> set (enabled_repos (snd (validate_repositories env c quiet s)))"
    using validate_repositories_enabled [of env c quiet s] by auto
  show "fst (validate_repositories env c quiet s) = None \<longrightarrow>
        enabled_repos (snd (validate_repositories env c quiet s)) =
          filter (\<lambda>r. validation_outcome env c s r = None) (order (SystemSettings s))"
    using validate_repositories_enabled [of env c quiet s] by blast
  show "msg_not_available rid \<noteq> msg_corrupted rid'"
    by (rule msg_unavailable_not_corrupted)
  show "fst (validate_repositories env c quiet s) = None \<and> rid \<in> set (order (SystemSettings s)) \<longrightarrow>
        set (validate_messages quiet rid (validation_outcome env c s rid))
          \<subseteq> set (validate_outputs env c quiet s)"
    using validate_repositories_outputs [of env c quiet s] by blast
  show "distinct (order (SystemSettings s)) \<longrightarrow>
        distinct (filter (\<lambda>t. t \<noteq> msg_please_update)
          (map msg_text (validate_outputs env c quiet s)))"
    using validate_repositories_outputs [of env c quiet s] by blast
  show "quiet \<longrightarrow> (\<forall>m \<in> set (validate_outputs env c quiet s).
          \<exists>r \<in> set (order (SystemSettings s)). loader_warning r m)"
  proof (intro impI ballI)
    fix m assume q: quiet and m: "m \<in> set (validate_outputs env c quiet s)"
    from validate_repositories_outputs [of env c quiet s] m
    obtain r where "r \<in> set (order (SystemSettings s))" "loader_warning r m \<or>
        m \<in> set (validate_messages quiet r (validation_outcome env c s r))" by blast
    with q show "\<exists>r \<in> set (order (SystemSettings s)). loader_warning r m"
      by (auto simp: validate_messages_def)
  qed
qed


theorem validate_repositories_diagnostics_witness:
  "''ghost'' \<notin> set (enabled_repos (snd (validate_repositories demo_env demo_const False demo_client)))
   \<and> enabled_repos (snd (validate_repositories demo_env demo_const False demo_client))
       = [''mem'', ''main'']
   \<and> mk_output (msg_not_available ''ghost'') 1 ''warning'' [] False
       \<in> set (validate_outputs demo_env demo_const False demo_client)
   \<and> mk_output (msg_corrupted ''broken'') 1 ''warning'' [] False
       \<in> set (validate_outputs demo_env demo_const False demo_client)
   \<and> distinct (filter (\<lambda>t. t \<noteq> msg_please_update)
        (map msg_text (validate_outputs demo_env demo_const False demo_client)))"
proof -
  note t = validate_repositories_diagnostics [of demo_env demo_const demo_client "''ghost''" False "''broken''"]
  note u = validate_repositories_diagnostics [of demo_env demo_const demo_client "''broken''" False "''ghost''"]
  have o: "validation_outcome demo_env demo_const demo_client ''ghost'' \<noteq> None" by code_simp
  have f: "fst (validate_repositories demo_env demo_const False demo_client) = None" by code_simp
  have fl: "filter (\<lambda>r. validation_outcome demo_env demo_const demo_client r = None)
      (order (SystemSettings demo_client)) = [''mem'', ''main'']" by code_simp
  have g: "''ghost'' \<in> set (order (SystemSettings demo_client))"
    "''broken'' \<in> set (order (SystemSettings demo_client))" by code_simp+
  have vm: "validate_messages False ''ghost'' (validation_outcome demo_env demo_const demo_client ''ghost'')
      = [mk_output (msg_not_available ''ghost'') 1 ''warning'' [] False,
         mk_output msg_please_update 1 ''warning'' ''!!! '' False]" by code_simp
  have vb: "validate_messages False ''broken'' (validation_outcome demo_env demo_const demo_client ''broken'')
      = [mk_output (msg_corrupted ''broken'') 1 ''warning'' [] False]" by code_simp
  have d: "distinct (order (SystemSettings demo_client))" by code_simp
  have 1: "''ghost'' \<notin> set (enabled_repos (snd (validate_repositories demo_env demo_const False demo_client)))"
    using t [THEN conjunct1] o by blast
  have 2: "enabled_repos (snd (validate_repositories demo_env demo_const False demo_client))
       = [''mem'', ''main'']"
    using t [THEN conjunct2, THEN conjunct1] f fl by simp
  have 3: "mk_output (msg_not_available ''ghost'') 1 ''warning'' [] False
       \<in> set (validate_outputs demo_env demo_const False demo_client)"
    using t [THEN conjunct2, THEN conjunct2, THEN conjunct2, THEN conjunct1] f g(1)
    unfolding vm by simp
  have 4: "mk_output (msg_corrupted ''broken'') 1 ''warning'' [] False
       \<in> set (validate_outputs demo_env demo_const False demo_client)"
    using u [THEN conjunct2, THEN conjunct2, THEN conjunct2, THEN conjunct1] f g(2)
    unfolding vb by simp
  have 5: "distinct (filter (\<lambda>t. t \<noteq> msg_please_update)
        (map msg_text (validate_outputs demo_env demo_const False demo_client)))"
    using t [THEN conjunct2, THEN conjunct2, THEN conjunct2, THEN conjunct2, THEN conjunct1] d
    by blast
  from 1 2 3 4 5 show ?thesis by blast
qed

text \<open>
  Claim C7 as stated fails twice. With \<^verbatim>\<open>quiet\<close> set, the sample installation still
  prints the warning that the database of \<^verbatim>\<open>ghost\<close> has not been downloaded. And with
  \<^verbatim>\<open>ghost\<close> twice in the priority list, its diagnostic is printed twice.
\<close>

theorem quiet_validation_still_warns:
  "validate_outputs demo_env demo_const True demo_client
     = [mk_output (msg_not_downloaded ''ghost'') 2 ''warning'' [] False]
   \<and> count_list (map msg_text (validate_outputs demo_env demo_const False dup_client))
       (msg_not_available ''ghost'') = 2"
  by code_simp

subsection \<open>Branch migration hooks\<close>












lemma hook_args_id [simp]: "hook_args c script rid fb tb ! 2 = rid"
  by (simp add: hook_args_def)





























subsection \<open>Masking a match that is masked\<close>

lemma is_match_masked_frame:
  assumes "is_match_masked env c m live s = (x, s1)"
  shows "fs s1 = fs s \<and> SystemSettings s1 = SystemSettings s"
proof -
  obtain y s' where o: "open_repository env c (snd m) s = (y, s')" by force
  from same_core_open [OF o] have "fs s' = fs s" "SystemSettings s' = SystemSettings s"
    by (simp_all add: same_core_def)
  moreover from assms o have "s1 = s'"
    by (auto simp: is_match_masked_def Let_def split: sum.splits option.splits prod.splits if_splits)
  ultimately show ?thesis by simp
qed

lemma mask_match_masked:
  assumes "is_match_masked env c m False s = (Inr True, s1)"
  shows "mask_match env c m method dry_run s = (Inr True, s1)"
  using assms by (simp add: mask_match_def)

lemma unmask_match_unmasked:
  assumes "is_match_masked env c m False s = (Inr False, s1)"
  shows "unmask_match env c m method dry_run s = (Inr True, s1)"
  using assms by (simp add: unmask_match_def)

text \<open>
  Claim C8, as the code has it. For a match that is masked when checked with the live
  overlay disabled, \<^verbatim>\<open>mask_match\<close> returns \<^verbatim>\<open>True\<close> and leaves the mask files and the
  settings, the live overlay among them, as they are; so does \<^verbatim>\<open>unmask_match\<close> for a
  match that is not masked. Hence a second call of \<^verbatim>\<open>mask_match\<close> is such a call that
  changes nothing whenever the first call has left the match masked.
\<close>

theorem mask_match_no_op_when_masked:
  "(is_match_masked env c m False s = (Inr True, s1) \<longrightarrow>
      mask_match env c m method dry_run s = (Inr True, s1) \<and>
      fs s1 = fs s \<and> SystemSettings s1 = SystemSettings s)
   \<and> (is_match_masked env c m False s = (Inr False, s1) \<longrightarrow>
      unmask_match env c m method dry_run s = (Inr True, s1) \<and>
      fs s1 = fs s \<and> SystemSettings s1 = SystemSettings s)
   \<and> (is_match_masked env c m False (snd (mask_match env c m method dry_run s)) = (Inr True, s2) \<longrightarrow>
      mask_match env c m method' dry_run' (snd (mask_match env c m method dry_run s)) = (Inr True, s2) \<and>
      fs s2 = fs (snd (mask_match env c m method dry_run s)) \<and>
      SystemSettings s2 = SystemSettings (snd (mask_match env c m method dry_run s)))"
  using is_match_masked_frame [of env c m False s _ s1]
    is_match_masked_frame [of env c m False "snd (mask_match env c m method dry_run s)" _ s2]
  by (auto simp: mask_match_masked unmask_match_unmasked)

theorem mask_match_no_op_when_masked_witness:
  "fst (mask_match masking_env demo_const (42, ''main'') ''atom'' False masking_client) = Inr True
   \<and> fs (snd (mask_match masking_env demo_const (42, ''main'') ''atom'' False masking_client))
        ''/etc/entropy/packages/package.mask''
     = Some [''sys-apps/bar'' @ [CHR 0x0A], ''app-misc/foo-1.0'' @ [CHR 0x0A]]
   \<and> fst (mask_match masking_env demo_const (42, ''main'') ''atom'' False
        (snd (mask_match masking_env demo_const (42, ''main'') ''atom'' False masking_client)))
     = Inr True
   \<and> fs (snd (mask_match masking_env demo_const (42, ''main'') ''atom'' False
        (snd (mask_match masking_env demo_const (42, ''main'') ''atom'' False masking_client))))
     = fs (snd (mask_match masking_env demo_const (42, ''main'') ''atom'' False masking_client))
   \<and> SystemSettings (snd (mask_match masking_env demo_const (42, ''main'') ''atom'' False
        (snd (mask_match masking_env demo_const (42, ''main'') ''atom'' False masking_client))))
     = SystemSettings (snd (mask_match masking_env demo_const (42, ''main'') ''atom'' False masking_client))"
proof -
  let ?s1 = "snd (mask_match masking_env demo_const (42, ''main'') ''atom'' False masking_client)"
  let ?s2 = "snd (is_match_masked masking_env demo_const (42, ''main'') False ?s1)"
  have a: "fst (mask_match masking_env demo_const (42, ''main'') ''atom'' False masking_client) = Inr True"
    by code_simp
  have b: "fs ?s1 ''/etc/entropy/packages/package.mask''
     = Some [''sys-apps/bar'' @ [CHR 0x0A], ''app-misc/foo-1.0'' @ [CHR 0x0A]]"
    by code_simp
  have "fst (is_match_masked masking_env demo_const (42, ''main'') False ?s1) = Inr True"
    by code_simp
  then have m: "is_match_masked masking_env demo_const (42, ''main'') False ?s1 = (Inr True, ?s2)"
    by (simp add: prod_eq_iff)
  note t = mask_match_no_op_when_masked [of masking_env demo_const "(42, ''main'')" masking_client
      _ "''atom''" False ?s2 "''atom''" False, THEN conjunct2, THEN conjunct2, rule_format, OF m]
  from t have "fst (mask_match masking_env demo_const (42, ''main'') ''atom'' False ?s1) = Inr True"
    and "snd (mask_match masking_env demo_const (42, ''main'') ''atom'' False ?s1) = ?s2"
    and "fs ?s2 = fs ?s1" and "SystemSettings ?s2 = SystemSettings ?s1"
    by simp_all
  with a b show ?thesis by simp
qed

text \<open>
  Claim C8 as stated fails in its last part: when the mask file cannot be written, the
  first call of \<^verbatim>\<open>mask_match\<close> returns \<^verbatim>\<open>False\<close> and leaves the match unmasked, and
  the second call returns \<^verbatim>\<open>False\<close> again.
\<close>

theorem mask_match_twice_readonly:
  "fst (mask_match readonly_masking_env demo_const (42, ''main'') ''atom'' False masking_client)
     = Inr False
   \<and> fst (mask_match readonly_masking_env demo_const (42, ''main'') ''atom'' False
        (snd (mask_match readonly_masking_env demo_const (42, ''main'') ''atom'' False masking_client)))
     = Inr False"
  by code_simp

end
